theory Spec2Isabelle
  imports Main "HOL-Library.Word" "HOL-Library.Signed_Division" "HOL-Library.Monad_Syntax"
begin

section \<open>Shared vocabulary of the two sketches\<close>

text \<open>
  The repository holds two Arduino sketches for the same 17-tine kalimba.  The sketch
  with the semitone buttons (\<^verbatim>\<open>src/unnamed/part_000\<close>) is called variant 1, the
  slide-aware sketch (\<^verbatim>\<open>src/M5Kalinba.ino\<close>) variant 2.  Both define a function
  \<^verbatim>\<open>loop\<close>; they are \<open>loop1\<close> and \<open>loop2\<close> here.

  Calls into the board libraries (display, synthesiser, delay) are recorded as a list of
  events in the order the code issues them.  A read or write of a C array outside its
  bounds is undefined behaviour; every function that touches an array returns an
  \<open>option\<close>, and \<open>None\<close> is exactly such an access.
\<close>

text \<open>Colours handed to the display: a numeric value of the source, or one of the
  library's colour macros, whose values are not part of the repository.\<close>

datatype colour = Rgb "32 word" | BLACK | TFT_BLACK | TFT_WHITE

datatype lcd_cmd =
    FillRect int int int int colour
  | DrawFastVLine int int int colour
  | FillRoundRect int int int int int colour
  | DrawRoundRect int int int int int colour
  | SetTextSize int
  | SetTextColor colour
  | SetTextColorBg colour colour
  | SetCursor int int
  | Print string

text \<open>\<open>SetNoteOn channel pitch velocity\<close> and \<open>SetNoteOff channel pitch velocity\<close>
  are the two synthesiser commands, \<open>Delay ms\<close> the blocking wait.\<close>

datatype event =
    Lcd lcd_cmd
  | SetNoteOn "8 word" "8 word" "8 word"
  | SetNoteOff "8 word" "8 word" "8 word"
  | Delay nat

fun is_synth :: "event \<Rightarrow> bool" where
  "is_synth (SetNoteOn c p v) = True"
| "is_synth (SetNoteOff c p v) = True"
| "is_synth e = False"

fun is_note_on :: "event \<Rightarrow> bool" where
  "is_note_on (SetNoteOn c p v) = True"
| "is_note_on e = False"

fun is_note_off :: "event \<Rightarrow> bool" where
  "is_note_off (SetNoteOff c p v) = True"
| "is_note_off e = False"

text \<open>Array read \<^verbatim>\<open>a[i]\<close> and array write \<^verbatim>\<open>a[i] = v\<close> with a C \<^verbatim>\<open>int\<close> index.\<close>

definition arr_get :: "'a list \<Rightarrow> int \<Rightarrow> 'a option" where
  "arr_get a i = (if 0 \<le> i \<and> i < int (length a) then Some (a ! nat i) else None)"

definition arr_set :: "'a list \<Rightarrow> int \<Rightarrow> 'a \<Rightarrow> 'a list option" where
  "arr_set a i v = (if 0 \<le> i \<and> i < int (length a) then Some (a[nat i := v]) else None)"

text \<open>
  What the attached synthesiser is playing, as a list of pitches: a note-on starts a
  pitch, a note-off stops it.  \<open>monophonic evs S\<close> holds when, starting from the
  sounding pitches \<open>S\<close>, at most one pitch sounds before and after every single event
  of \<open>evs\<close>.
\<close>

fun synth_step :: "event \<Rightarrow> 8 word list \<Rightarrow> 8 word list" where
  "synth_step (SetNoteOn c p v) S = (if p \<in> set S then S else p # S)"
| "synth_step (SetNoteOff c p v) S = removeAll p S"
| "synth_step e S = S"

fun monophonic :: "event list \<Rightarrow> 8 word list \<Rightarrow> bool" where
  "monophonic [] S = (length S \<le> 1)"
| "monophonic (e # es) S = (length S \<le> 1 \<and> monophonic es (synth_step e S))"


section \<open>Variant 1: single active tine with semitone shift\<close>

subsection \<open>Tables and constants\<close>

definition tine_notes :: "8 word list" where
  "tine_notes = [86, 83, 79, 76, 72, 69, 65, 62, 60, 64, 67, 71, 74, 77, 81, 84, 88]"

definition DISPLAY_WIDTH :: "16 word" where "DISPLAY_WIDTH = 320"
definition DISPLAY_HEIGHT :: "16 word" where "DISPLAY_HEIGHT = 240"

text \<open>Operands of type \<^verbatim>\<open>uint16_t\<close> are promoted to the 32-bit \<^verbatim>\<open>int\<close> before
  arithmetic; the result is cut back to 16 bits by \<open>word_of_int\<close> where the source
  stores it in a \<^verbatim>\<open>uint16_t\<close>.  None of the promoted values leaves the 32-bit range.\<close>

definition TINE_WIDTH :: "16 word" where "TINE_WIDTH = 16"
definition TINE_GAP :: "16 word" where "TINE_GAP = 2"
definition TINE_PITCH :: "16 word" where
  "TINE_PITCH = word_of_int (uint TINE_WIDTH + uint TINE_GAP)"
definition TINE_START_X :: "16 word" where
  "TINE_START_X =
     word_of_int ((uint DISPLAY_WIDTH - (17 * uint TINE_PITCH - uint TINE_GAP)) sdiv 2)"
definition BRIDGE_Y :: "16 word" where "BRIDGE_Y = 22"
definition TINE_CENTER_HEIGHT :: "16 word" where "TINE_CENTER_HEIGHT = 150"
definition TINE_EDGE_STEP :: "16 word" where "TINE_EDGE_STEP = 8"

definition COL_WOOD :: "16 word" where "COL_WOOD = 0x4A08"
definition COL_TINE :: "16 word" where "COL_TINE = 0xC618"
definition COL_TINE_EDGE :: "16 word" where "COL_TINE_EDGE = 0x9CD3"
definition COL_PRESSED :: "16 word" where "COL_PRESSED = 0xFFE0"

definition note_names :: "string list" where
  "note_names = [''C'', ''C#'', ''D'', ''D#'', ''E'', ''F'', ''F#'', ''G'', ''G#'', ''A'', ''A#'', ''B'']"

subsection \<open>Layout\<close>

definition getTineHeight :: "8 word \<Rightarrow> 16 word" where
  "getTineHeight pos =
     (let dist = uint pos - 8;
          dist = (if dist < 0 then - dist else dist)
      in word_of_int (uint TINE_CENTER_HEIGHT - dist * uint TINE_EDGE_STEP))"

definition getTineX :: "8 word \<Rightarrow> 16 word" where
  "getTineX pos = word_of_int (uint TINE_START_X + uint pos * uint TINE_PITCH)"

subsection \<open>Hit test\<close>

text \<open>The \<^verbatim>\<open>for\<close> loop of \<^verbatim>\<open>getKeyAtPosition\<close>, entered at position \<open>pos\<close>.\<close>

function scanTines :: "8 word \<Rightarrow> 16 word \<Rightarrow> 16 word \<Rightarrow> int" where
  "scanTines pos x y =
     (if pos < 17 then
        (let tx = getTineX pos;
             th = getTineHeight pos;
             ty_bottom = (word_of_int (uint BRIDGE_Y + uint th) :: 16 word)
         in if x \<ge> tx \<and> uint x < uint tx + uint TINE_WIDTH \<and> y \<ge> BRIDGE_Y \<and> y \<le> ty_bottom
            then uint pos
            else scanTines (pos + 1) x y)
      else - 1)"
  by pat_completeness auto
termination
  apply (relation "measure (\<lambda>(pos, x, y). 17 - unat pos)")
   apply simp
  apply (simp add: word_less_nat_alt unat_word_ariths)
  done

declare scanTines.simps [simp del]

definition getKeyAtPosition :: "16 word \<Rightarrow> 16 word \<Rightarrow> int" where
  "getKeyAtPosition x y = (if y < BRIDGE_Y then - 1 else scanTines 0 x y)"

subsection \<open>Drawing\<close>

definition drawTine :: "8 word \<Rightarrow> bool \<Rightarrow> event list option" where
  "drawTine pos pressed =
     (let x = getTineX pos;
          h = getTineHeight pos;
          color = Rgb (ucast (if pressed then COL_PRESSED else COL_TINE));
          edge_color = Rgb (if pressed then 0xF700 else ucast COL_TINE_EDGE)
      in do {
        note \<leftarrow> arr_get tine_notes (uint pos);
        let note_num = note mod 12;
        name \<leftarrow> arr_get note_names (uint note_num);
        Some [Lcd (FillRect (uint x) (uint BRIDGE_Y) (uint TINE_WIDTH) (uint h) color),
              Lcd (DrawFastVLine (uint x) (uint BRIDGE_Y) (uint h) edge_color),
              Lcd (DrawFastVLine (uint x + uint TINE_WIDTH - 1) (uint BRIDGE_Y) (uint h) edge_color),
              Lcd (FillRoundRect (uint x) (uint BRIDGE_Y + uint h - 6) (uint TINE_WIDTH) 6 3 color),
              Lcd (DrawRoundRect (uint x) (uint BRIDGE_Y + uint h - 6) (uint TINE_WIDTH) 6 3 edge_color),
              Lcd (SetTextSize 1),
              Lcd (SetTextColor (if pressed then BLACK else Rgb 0x4208)),
              Lcd (SetCursor (uint x + 2) (uint BRIDGE_Y + uint h - 14)),
              Lcd (Print name)]
      })"

subsection \<open>State and input of one polling tick\<close>

text \<open>\<^verbatim>\<open>int8_t\<close> values are 8-bit words read through \<open>sint\<close>.  \<open>prev_offset\<close> is the
  function-local \<^verbatim>\<open>static\<close> of \<^verbatim>\<open>drawModeIndicator\<close>.\<close>

record kalimba =
  key_pressed :: "bool list"
  active_note_pitch :: "8 word"
  active_tine :: "8 word"
  prev_offset :: "8 word"

definition init1 :: kalimba where
  "init1 = \<lparr>key_pressed = replicate 17 False, active_note_pitch = 0,
            active_tine = - 1, prev_offset = 0\<rparr>"

text \<open>What \<^verbatim>\<open>M5.update()\<close> makes visible to one pass of the loop: the two buttons, the
  touch controller's \<^verbatim>\<open>changed\<close> flag and point count, and the first point's
  coordinates as \<^verbatim>\<open>getKeyAtPosition\<close> receives them in its \<^verbatim>\<open>uint16_t\<close> parameters.\<close>

record touch1 =
  BtnA_isPressed :: bool
  BtnC_isPressed :: bool
  Touch_changed :: bool
  Touch_points :: "8 word"
  point0_x :: "16 word"
  point0_y :: "16 word"

definition drawModeIndicator :: "8 word \<Rightarrow> kalimba \<Rightarrow> kalimba \<times> event list" where
  "drawModeIndicator offset s =
     (if offset = prev_offset s then (s, [])
      else (s\<lparr>prev_offset := offset\<rparr>,
            [Lcd (FillRect (uint DISPLAY_WIDTH - 30) 2 28 16 (Rgb (ucast COL_WOOD))),
             Lcd (SetTextSize 2)] @
            (if sint offset = - 1 then
               [Lcd (SetTextColor (Rgb 0x07FF)), Lcd (SetCursor (uint DISPLAY_WIDTH - 24) 3),
                Lcd (Print ''b'')]
             else if sint offset = 1 then
               [Lcd (SetTextColor (Rgb 0xF800)), Lcd (SetCursor (uint DISPLAY_WIDTH - 24) 3),
                Lcd (Print ''#'')]
             else [])))"

text \<open>The semitone offset chosen at the head of the loop: the second assignment
  overwrites the first.\<close>

definition semitone_offset :: "touch1 \<Rightarrow> 8 word" where
  "semitone_offset inp =
     (let off = 0;
          off = (if BtnA_isPressed inp then - 1 else off);
          off = (if BtnC_isPressed inp then 1 else off)
      in off)"

text \<open>The body of \<^verbatim>\<open>if (M5.Touch.points > 0)\<close> after the hit test returned \<open>pos\<close>.\<close>

definition loop1_touch :: "int \<Rightarrow> 8 word \<Rightarrow> kalimba \<Rightarrow> (kalimba \<times> event list) option" where
  "loop1_touch pos offset s =
     (if pos \<ge> 0 then do {
        kp \<leftarrow> arr_get (key_pressed s) pos;
        if \<not> kp then do {
          (s1, ev_old) \<leftarrow>
            (if sint (active_tine s) \<ge> 0 \<and> sint (active_tine s) \<noteq> pos then do {
               ks \<leftarrow> arr_set (key_pressed s) (sint (active_tine s)) False;
               d \<leftarrow> drawTine (active_tine s) False;
               Some (s\<lparr>key_pressed := ks\<rparr>, SetNoteOff 0 (active_note_pitch s) 0 # d)
             } else Some (s, []));
          ks \<leftarrow> arr_set (key_pressed s1) pos True;
          note \<leftarrow> arr_get tine_notes pos;
          let s2 = s1\<lparr>key_pressed := ks, active_tine := word_of_int pos,
                      active_note_pitch := word_of_int (uint note + sint offset)\<rparr>;
          d \<leftarrow> drawTine (word_of_int pos) True;
          Some (s2, ev_old @ SetNoteOn 0 (active_note_pitch s2) 100 # d)
        } else Some (s, [])
      } else Some (s, []))"

text \<open>The release loop \<^verbatim>\<open>for (int i = 0; i < 17; i++)\<close>, entered at index \<open>i\<close>.\<close>

function releaseKeys :: "int \<Rightarrow> kalimba \<Rightarrow> (kalimba \<times> event list) option" where
  "releaseKeys i s =
     (if i < 17 then do {
        kp \<leftarrow> arr_get (key_pressed s) i;
        if kp then do {
          ks \<leftarrow> arr_set (key_pressed s) i False;
          let s1 = s\<lparr>key_pressed := ks\<rparr>;
          d \<leftarrow> drawTine (word_of_int i) False;
          (s2, evs) \<leftarrow> releaseKeys (i + 1) s1;
          Some (s2, SetNoteOff 0 (active_note_pitch s1) 0 # d @ evs)
        } else releaseKeys (i + 1) s
      } else Some (s, []))"
  by pat_completeness auto
termination
  by (relation "measure (\<lambda>(i, s). nat (17 - i))") auto

declare releaseKeys.simps [simp del]

definition loop1 :: "touch1 \<Rightarrow> kalimba \<Rightarrow> (kalimba \<times> event list) option" where
  "loop1 inp s0 =
     (let offset = semitone_offset inp;
          (s1, ev_mode) = drawModeIndicator offset s0
      in do {
        (s2, ev_touch) \<leftarrow>
          (if Touch_changed inp \<and> Touch_points inp > 0
           then loop1_touch (getKeyAtPosition (point0_x inp) (point0_y inp)) offset s1
           else Some (s1, []));
        (s3, ev_release) \<leftarrow>
          (if Touch_points inp = 0 then do {
             (s, evs) \<leftarrow> releaseKeys 0 s2;
             Some (s\<lparr>active_tine := - 1, active_note_pitch := 0\<rparr>, evs)
           } else Some (s2, []));
        Some (s3, ev_mode @ ev_touch @ ev_release @ [Delay 10])
      })"

text \<open>A run of polling ticks, one input per tick; the events of all ticks in order.\<close>

fun run1 :: "touch1 list \<Rightarrow> kalimba \<Rightarrow> (kalimba \<times> event list) option" where
  "run1 [] s = Some (s, [])"
| "run1 (inp # inps) s = do {
     (s1, ev1) \<leftarrow> loop1 inp s;
     (s2, ev2) \<leftarrow> run1 inps s1;
     Some (s2, ev1 @ ev2)
   }"


section \<open>Variant 2: slide-aware sketch\<close>

subsection \<open>Tables and constants\<close>

text \<open>The sketch's \<^verbatim>\<open>int\<close> globals are never assigned after their initialisers.  Its
  \<^verbatim>\<open>int\<close> arithmetic is on screen coordinates and indices between -1 and 16 and
  stays far inside 32 bits, so \<^verbatim>\<open>int\<close> is the mathematical \<open>int\<close>; the division is
  C's, truncating towards zero (\<open>sdiv\<close>).\<close>

definition barCount :: int where "barCount = 17"
definition barWidth :: int where "barWidth = 320 sdiv barCount"
definition maxHeight :: int where "maxHeight = 200"
definition stepHeight :: int where "stepHeight = 6"
definition centerIndex :: int where "centerIndex = barCount sdiv 2"
definition barY :: int where "barY = 20"
definition barColor :: colour where "barColor = TFT_WHITE"
definition highlightColor :: colour where "highlightColor = Rgb 0xFFE0"

definition noteNames :: "string list" where
  "noteNames = [''D4'', ''B4'', ''G4'', ''E4'', ''C4'', ''A3'', ''F3'', ''D3'', ''C2'',
                ''E5'', ''G3'', ''B3'', ''D4'', ''F4'', ''A4'', ''C5'', ''E5'']"

text \<open>The pitch table \<^verbatim>\<open>notes[17]\<close> is filled from the synthesiser library's
  \<^verbatim>\<open>NOTE_*\<close> macros, which the repository does not define: the table is a parameter
  \<open>notes\<close> of every function that reads it.\<close>

subsection \<open>Layout and drawing\<close>

definition getBarHeight :: "int \<Rightarrow> int" where
  "getBarHeight index =
     (let dist = \<bar>index - centerIndex\<bar>;
          height = maxHeight - dist * stepHeight
      in height)"

definition drawSingleBar :: "int \<Rightarrow> colour \<Rightarrow> event list option" where
  "drawSingleBar index color =
     (let barH = getBarHeight index;
          x = index * barWidth;
          textX = x + barWidth sdiv 2;
          textY = barY + barH - 60
      in do {
        name \<leftarrow> arr_get noteNames index;
        let textWidth = int (length name) * 6;
        Some [Lcd (FillRect x barY (barWidth - 1) barH color),
              Lcd (SetTextColorBg TFT_BLACK color),
              Lcd (SetTextSize 1),
              Lcd (SetCursor (textX - textWidth sdiv 2) textY),
              Lcd (Print name)]
      })"

subsection \<open>State, input and the polling loop\<close>

record kalimba2 =
  selectedBar :: int
  lastPressedBar :: int
  wasPressed :: bool

definition init2 :: kalimba2 where
  "init2 = \<lparr>selectedBar = - 1, lastPressedBar = - 1, wasPressed = False\<rparr>"

text \<open>What one pass of the loop reads from the touch controller: \<^verbatim>\<open>ispressed()\<close> and
  the coordinates of \<^verbatim>\<open>getPressPoint()\<close>.\<close>

record touch2 =
  ispressed :: bool
  press_x :: int
  press_y :: int

definition highlightBar :: "int \<Rightarrow> kalimba2 \<Rightarrow> (kalimba2 \<times> event list) option" where
  "highlightBar index s = do {
     d \<leftarrow> drawSingleBar index highlightColor;
     Some (s\<lparr>selectedBar := index\<rparr>, d)
   }"

definition playNoteShort :: "8 word list \<Rightarrow> int \<Rightarrow> event list option" where
  "playNoteShort notes index =
     (if index \<ge> 0 \<and> index < barCount then do {
        note \<leftarrow> arr_get notes index;
        Some [SetNoteOn 0 note 127, Delay 5, SetNoteOff 0 note 127]
      } else Some [])"

definition playNote :: "8 word list \<Rightarrow> int \<Rightarrow> bool \<Rightarrow> event list option" where
  "playNote notes index onoff =
     (if index \<ge> 0 \<and> index < barCount then do {
        note \<leftarrow> arr_get notes index;
        Some (if onoff = True then [SetNoteOn 0 note 127] else [SetNoteOff 0 note 127])
      } else Some [])"

definition loop2 :: "8 word list \<Rightarrow> touch2 \<Rightarrow> kalimba2 \<Rightarrow> (kalimba2 \<times> event list) option" where
  "loop2 notes inp s =
     (let isPressed = ispressed inp in do {
        (s', evs) \<leftarrow>
          (if isPressed then
             (let x = press_x inp;
                  y = press_y inp;
                  barIndex = x sdiv barWidth
              in if barIndex \<ge> 0 \<and> barIndex < barCount then
                   (let barH = getBarHeight barIndex
                    in if y \<ge> barY \<and> y \<le> barY + barH then do {
                         (s1, ev) \<leftarrow>
                           (if selectedBar s \<noteq> barIndex then do {
                              ev_old \<leftarrow>
                                (if selectedBar s \<ge> 0 \<and> selectedBar s < barCount
                                 then drawSingleBar (selectedBar s) barColor
                                 else Some []);
                              (s1, ev_hl) \<leftarrow> highlightBar barIndex s;
                              ev_pluck \<leftarrow> playNoteShort notes barIndex;
                              Some (s1, ev_old @ ev_hl @ ev_pluck)
                            } else Some (s, []));
                         Some (s1\<lparr>lastPressedBar := barIndex\<rparr>, ev)
                       }
                       else if selectedBar s \<noteq> - 1 then do {
                         d \<leftarrow> drawSingleBar (selectedBar s) barColor;
                         Some (s\<lparr>selectedBar := - 1\<rparr>, d)
                       }
                       else Some (s, []))
                 else if selectedBar s \<noteq> - 1 then do {
                   d \<leftarrow> drawSingleBar (selectedBar s) barColor;
                   Some (s\<lparr>selectedBar := - 1\<rparr>, d)
                 }
                 else Some (s, []))
           else if wasPressed s then
             (if lastPressedBar s \<noteq> - 1 then do {
                (s1, ev_sel) \<leftarrow>
                  (if selectedBar s \<noteq> - 1 then do {
                     d \<leftarrow> drawSingleBar (selectedBar s) barColor;
                     Some (s\<lparr>selectedBar := - 1\<rparr>, d)
                   } else Some (s, []));
                ev_note \<leftarrow> playNote notes (lastPressedBar s1) True;
                Some (s1\<lparr>lastPressedBar := - 1\<rparr>, ev_sel @ ev_note)
              } else Some (s, []))
           else Some (s, []));
        Some (s'\<lparr>wasPressed := isPressed\<rparr>, evs)
      })"

fun run2 :: "8 word list \<Rightarrow> touch2 list \<Rightarrow> kalimba2 \<Rightarrow> (kalimba2 \<times> event list) option" where
  "run2 notes [] s = Some (s, [])"
| "run2 notes (inp # inps) s = do {
     (s1, ev1) \<leftarrow> loop2 notes inp s;
     (s2, ev2) \<leftarrow> run2 notes inps s1;
     Some (s2, ev1 @ ev2)
   }"


section \<open>Notions used to state the properties\<close>

text \<open>
  Variant 1: every entry of \<open>key_pressed\<close> that is set sits at index \<open>a\<close>; with
  \<open>a = active_tine\<close> this is the link between the flag array and the active tine.
\<close>

definition pressed_only_at :: "bool list \<Rightarrow> int \<Rightarrow> bool" where
  "pressed_only_at ks a = list_all (\<lambda>(i, b). b \<longrightarrow> int i = a) (enumerate 0 ks)"

definition inv1 :: "kalimba \<Rightarrow> bool" where
  "inv1 s \<longleftrightarrow>
     length (key_pressed s) = 17 \<and>
     - 1 \<le> sint (active_tine s) \<and> sint (active_tine s) \<le> 16 \<and>
     pressed_only_at (key_pressed s) (sint (active_tine s))"

text \<open>The pitches variant 1 has turned on and not yet off, read from its state.\<close>

definition sounding1 :: "kalimba \<Rightarrow> 8 word list" where
  "sounding1 s = (if True \<in> set (key_pressed s) then [active_note_pitch s] else [])"

text \<open>Variant 2: a stored bar index is -1 (none) or a valid index.\<close>

definition inv2 :: "kalimba2 \<Rightarrow> bool" where
  "inv2 s \<longleftrightarrow>
     - 1 \<le> selectedBar s \<and> selectedBar s < barCount \<and>
     - 1 \<le> lastPressedBar s \<and> lastPressedBar s < barCount"

text \<open>Variant 2: the two nested conditions under which \<^verbatim>\<open>loop\<close> treats the touch
  point of \<open>inp\<close> as lying on a bar, and the bar index it computes.\<close>

definition touched_bar :: "touch2 \<Rightarrow> int" where
  "touched_bar inp = press_x inp sdiv barWidth"

definition on_a_bar :: "touch2 \<Rightarrow> bool" where
  "on_a_bar inp \<longleftrightarrow>
     touched_bar inp \<ge> 0 \<and> touched_bar inp < barCount \<and>
     press_y inp \<ge> barY \<and> press_y inp \<le> barY + getBarHeight (touched_bar inp)"


section \<open>Basic facts\<close>

lemma TINE_PITCH_val: "TINE_PITCH = 18"
  by (simp add: TINE_PITCH_def TINE_WIDTH_def TINE_GAP_def)

lemma TINE_START_X_val: "TINE_START_X = 8"
  by (simp add: TINE_START_X_def TINE_PITCH_val DISPLAY_WIDTH_def TINE_GAP_def)

lemma word8_le_16_cases:
  fixes pos :: "8 word"
  assumes "pos \<le> 16"
  shows "pos \<in> set [0, 1, 2, 3, 4, 5, 6, 7, 8, 9, 10, 11, 12, 13, 14, 15, 16]"
proof -
  have "unat pos \<le> 16" using assms by (simp add: word_le_nat_alt)
  then have "unat pos \<in> set [0..<17]" by simp
  then have "of_nat (unat pos) \<in> (of_nat ` set [0..<17] :: 8 word set)" by (rule imageI)
  then show ?thesis by (simp add: upt_conv_Cons)
qed

lemma uint16_of_int: "0 \<le> k \<Longrightarrow> k < 65536 \<Longrightarrow> uint (word_of_int k :: 16 word) = k"
  by (simp add: uint_word_of_int_eq take_bit_int_eq_self)

lemma getTineHeight_uint:
  assumes "pos \<le> 16"
  shows "uint (getTineHeight pos) = 150 - 8 * \<bar>uint pos - 8\<bar>"
proof -
  define k where "k = uint pos"
  have "k \<le> 16" "0 \<le> k" using assms by (simp_all add: k_def word_le_def)
  then have "0 \<le> 150 - 8 * \<bar>k - 8\<bar>" "150 - 8 * \<bar>k - 8\<bar> < 65536"
    by arith+
  then have b: "0 \<le> 150 - 8 * \<bar>uint pos - 8\<bar>" "150 - 8 * \<bar>uint pos - 8\<bar> < 65536"
    by (simp_all only: k_def)
  have "getTineHeight pos = word_of_int (150 - 8 * \<bar>uint pos - 8\<bar>)"
    by (simp add: getTineHeight_def Let_def TINE_CENTER_HEIGHT_def TINE_EDGE_STEP_def abs_if)
  then show ?thesis using b by (simp only: uint16_of_int)
qed

lemma getTineX_uint: "uint (getTineX pos) = 8 + uint pos * 18"
proof -
  have "uint pos < 256" using uint_bounded [of pos] by simp
  then have "8 + uint pos * 18 < 65536" by linarith
  moreover have "0 \<le> 8 + uint pos * 18" by simp
  moreover have "uint (8 :: 16 word) = 8" "uint (18 :: 16 word) = 18" by simp_all
  ultimately show ?thesis
    unfolding getTineX_def TINE_START_X_val TINE_PITCH_val by (simp only: uint16_of_int)
qed

lemma hit_inside:
  assumes "pos \<le> 16"
  shows "getKeyAtPosition (getTineX pos + 1) (BRIDGE_Y + 1) = uint pos"
proof -
  have "pos \<in> set [0, 1, 2, 3, 4, 5, 6, 7, 8, 9, 10, 11, 12, 13, 14, 15, 16]"
    using assms by (rule word8_le_16_cases)
  then show ?thesis
    apply (simp only: set_simps insert_iff empty_iff)
    apply (elim disjE)
    by (simp_all add: getKeyAtPosition_def scanTines.simps getTineX_def getTineHeight_def
        TINE_START_X_val TINE_PITCH_val BRIDGE_Y_def TINE_WIDTH_def TINE_CENTER_HEIGHT_def
        TINE_EDGE_STEP_def Let_def)
qed

lemma hit_above: "getKeyAtPosition x (BRIDGE_Y - 1) = - 1"
  by (simp add: getKeyAtPosition_def BRIDGE_Y_def)

lemma barWidth_val: "barWidth = 18"
  by (simp add: barWidth_def barCount_def)

lemma centerIndex_val: "centerIndex = 8"
  by (simp add: centerIndex_def barCount_def)

lemma sdiv_nonneg: "0 \<le> a \<Longrightarrow> 0 < b \<Longrightarrow> a sdiv b = a div (b::int)"
  by (cases "a = 0") (simp_all add: signed_divide_int_def sgn_if)

lemma drawSingleBar_Some:
  assumes "0 \<le> i" "i < 17"
  shows "\<exists>d. drawSingleBar i c = Some d \<and> filter is_synth d = []"
  using assms by (simp add: drawSingleBar_def Let_def arr_get_def noteNames_def)

lemma drawTine_Some:
  assumes "pos \<le> 16"
  shows "\<exists>d. drawTine pos b = Some d \<and> filter is_synth d = []"
proof -
  have "pos \<in> set [0, 1, 2, 3, 4, 5, 6, 7, 8, 9, 10, 11, 12, 13, 14, 15, 16]"
    using assms by (rule word8_le_16_cases)
  then show ?thesis
    apply (simp only: set_simps insert_iff empty_iff)
    apply (elim disjE)
    by (simp_all add: drawTine_def Let_def arr_get_def tine_notes_def note_names_def)
qed

lemma pressed_only_at_iff:
  "pressed_only_at ks a \<longleftrightarrow> (\<forall>i<length ks. ks ! i \<longrightarrow> int i = a)"
  by (auto simp: pressed_only_at_def list_all_iff in_set_enumerate_eq)

lemma only_at_none:
  "list_all (\<lambda>(i, b). b \<longrightarrow> int i = a) (enumerate n ks) \<Longrightarrow> a < int n \<Longrightarrow> filter (\<lambda>b. b) ks = []"
  by (induction ks arbitrary: n) auto

lemma only_at_count:
  "list_all (\<lambda>(i, b). b \<longrightarrow> int i = a) (enumerate n ks) \<Longrightarrow> length (filter (\<lambda>b. b) ks) \<le> 1"
proof (induction ks arbitrary: n)
  case Nil
  then show ?case by simp
next
  case (Cons b ks)
  show ?case
  proof (cases b)
    case True
    with Cons.prems have "a = int n" and "list_all (\<lambda>(i, b). b \<longrightarrow> int i = a) (enumerate (Suc n) ks)"
      by simp_all
    then have "filter (\<lambda>b. b) ks = []" using only_at_none [of a "Suc n" ks] by simp
    with True show ?thesis by simp
  next
    case False
    with Cons show ?thesis by simp
  qed
qed

lemma pressed_only_at_count: "pressed_only_at ks a \<Longrightarrow> length (filter (\<lambda>b. b) ks) \<le> 1"
  unfolding pressed_only_at_def by (rule only_at_count)

lemma getBarHeight_range: "0 \<le> i \<Longrightarrow> i < 17 \<Longrightarrow> 152 \<le> getBarHeight i \<and> getBarHeight i \<le> 200"
  by (simp add: getBarHeight_def Let_def centerIndex_val maxHeight_def stepHeight_def abs_if)

lemma loop2_pressed_off:
  assumes "ispressed inp" "\<not> on_a_bar inp" "- 1 \<le> selectedBar s" "selectedBar s < barCount"
  shows "\<exists>evs. loop2 notes inp s = Some (s\<lparr>selectedBar := - 1, wasPressed := True\<rparr>, evs) \<and>
           filter is_synth evs = [] \<and>
           (if selectedBar s = - 1 then evs = []
            else drawSingleBar (selectedBar s) barColor = Some evs)"
proof (cases "selectedBar s = - 1")
  case True
  then have "s\<lparr>selectedBar := - 1, wasPressed := True\<rparr> = s\<lparr>wasPressed := True\<rparr>" by simp
  with True assms show ?thesis
    by (auto simp: loop2_def Let_def on_a_bar_def touched_bar_def)
next
  case False
  with assms have "0 \<le> selectedBar s" "selectedBar s < 17" by (simp_all add: barCount_def)
  then obtain d where d: "drawSingleBar (selectedBar s) barColor = Some d" "filter is_synth d = []"
    using drawSingleBar_Some by blast
  with False assms show ?thesis
    by (auto simp: loop2_def Let_def on_a_bar_def touched_bar_def)
qed

lemma loop2_pressed_on:
  assumes "ispressed inp" "on_a_bar inp" "length notes = 17"
  shows "\<exists>evs. loop2 notes inp s =
             Some (s\<lparr>selectedBar := touched_bar inp, lastPressedBar := touched_bar inp,
                     wasPressed := True\<rparr>, evs) \<and>
           filter is_synth evs =
             (if selectedBar s = touched_bar inp then []
              else [SetNoteOn 0 (notes ! nat (touched_bar inp)) 127,
                    SetNoteOff 0 (notes ! nat (touched_bar inp)) 127])"
proof -
  define B where "B = touched_bar inp"
  have B: "0 \<le> B" "B < 17" "press_x inp sdiv barWidth = B"
    "barY \<le> press_y inp" "press_y inp \<le> barY + getBarHeight B"
    using assms(2) by (simp_all add: on_a_bar_def B_def barCount_def touched_bar_def)
  obtain d where d: "drawSingleBar B highlightColor = Some d" "filter is_synth d = []"
    using drawSingleBar_Some [OF B(1,2)] by blast
  have n: "arr_get notes B = Some (notes ! nat B)" using B assms(3) by (simp add: arr_get_def)
  show ?thesis
  proof (cases "selectedBar s = B")
    case True
    then have "s\<lparr>selectedBar := B, lastPressedBar := B, wasPressed := True\<rparr>
                 = s\<lparr>lastPressedBar := B, wasPressed := True\<rparr>" by simp
    with True B assms(1) show ?thesis
      unfolding B_def [symmetric]
      by (simp add: loop2_def Let_def barCount_def)
  next
    case False
    show ?thesis
    proof (cases "selectedBar s \<ge> 0 \<and> selectedBar s < barCount")
      case True
      then obtain d0 where d0: "drawSingleBar (selectedBar s) barColor = Some d0" "filter is_synth d0 = []"
        using drawSingleBar_Some [of "selectedBar s" barColor] by (auto simp: barCount_def)
      with True False B assms(1) d n show ?thesis
        unfolding B_def [symmetric]
        by (simp add: loop2_def Let_def barCount_def highlightBar_def playNoteShort_def)
    next
      case F2: False
      with False B assms(1) d n show ?thesis
        unfolding B_def [symmetric]
        by (auto simp: loop2_def Let_def barCount_def highlightBar_def playNoteShort_def)
    qed
  qed
qed

lemma loop2_released:
  assumes "\<not> ispressed inp" "inv2 s" "length notes = 17"
  shows "\<exists>evs. loop2 notes inp s =
             Some (if wasPressed s \<and> lastPressedBar s \<noteq> - 1
                   then s\<lparr>selectedBar := - 1, lastPressedBar := - 1, wasPressed := False\<rparr>
                   else s\<lparr>wasPressed := False\<rparr>, evs) \<and>
           filter is_synth evs =
             (if wasPressed s \<and> lastPressedBar s \<noteq> - 1
              then [SetNoteOn 0 (notes ! nat (lastPressedBar s)) 127] else []) \<and>
           (wasPressed s \<and> lastPressedBar s \<noteq> - 1 \<or> evs = [])"
proof (cases "wasPressed s \<and> lastPressedBar s \<noteq> - 1")
  case False
  with assms(1) show ?thesis by (auto simp: loop2_def Let_def)
next
  case True
  with assms(2) have L: "0 \<le> lastPressedBar s" "lastPressedBar s < 17"
    by (simp_all add: inv2_def barCount_def)
  then have n: "arr_get notes (lastPressedBar s) = Some (notes ! nat (lastPressedBar s))"
    using assms(3) by (simp add: arr_get_def)
  show ?thesis
  proof (cases "selectedBar s = - 1")
    case S: True
    then have "s\<lparr>selectedBar := - 1, lastPressedBar := - 1, wasPressed := False\<rparr>
                 = s\<lparr>lastPressedBar := - 1, wasPressed := False\<rparr>" by simp
    with S True L n assms(1) show ?thesis
      by (simp add: loop2_def Let_def playNote_def barCount_def)
  next
    case S: False
    with assms(2) have "0 \<le> selectedBar s" "selectedBar s < 17"
      by (simp_all add: inv2_def barCount_def)
    then obtain d where d: "drawSingleBar (selectedBar s) barColor = Some d" "filter is_synth d = []"
      using drawSingleBar_Some by blast
    with S True L n assms(1) show ?thesis
      by (simp add: loop2_def Let_def playNote_def barCount_def)
  qed
qed

lemma word8_of_int_le16: "0 \<le> i \<Longrightarrow> i \<le> 16 \<Longrightarrow> (word_of_int i :: 8 word) \<le> 16"
  by (simp add: word_le_def uint_word_of_int_eq take_bit_int_eq_self)

lemma sint8_of_int: "0 \<le> i \<Longrightarrow> i \<le> 16 \<Longrightarrow> sint (word_of_int i :: 8 word) = i"
  by (simp add: sint_sbintrunc' signed_take_bit_int_eq_self)

lemma releaseKeys_gen:
  assumes "length (key_pressed s) = 17" and "0 \<le> i"
  shows "\<exists>evs. releaseKeys i s =
             Some (s\<lparr>key_pressed := take (nat i) (key_pressed s) @ replicate (17 - nat i) False\<rparr>, evs) \<and>
           filter is_synth evs =
             map (\<lambda>_. SetNoteOff 0 (active_note_pitch s) 0)
                 (filter (\<lambda>b. b) (drop (nat i) (key_pressed s)))"
  using assms
proof (induction i s rule: releaseKeys.induct)
  case (1 i s)
  let ?ks = "key_pressed s"
  let ?n = "nat i"
  show ?case
  proof (cases "i < 17")
    case False
    with 1 have "take ?n ?ks = ?ks" "drop ?n ?ks = []" "17 - ?n = 0" by simp_all
    with False show ?thesis by (subst releaseKeys.simps) simp
  next
    case True
    with 1 have n: "?n < length ?ks" "?n < 17" "nat (i + 1) = Suc ?n" by simp_all
    have g: "arr_get ?ks i = Some (?ks ! ?n)" using True 1 by (simp add: arr_get_def)
    have rp: "replicate (17 - ?n) False = False # replicate (17 - Suc ?n) False"
      using n(2) by (simp add: Suc_diff_Suc flip: replicate_Suc)
    show ?thesis
    proof (cases "?ks ! ?n")
      case kp: False
      from "1.IH"(2) [OF True g kp] "1.prems"
      obtain evs where e: "releaseKeys (i + 1) s =
          Some (s\<lparr>key_pressed := take (Suc ?n) ?ks @ replicate (17 - Suc ?n) False\<rparr>, evs)"
        "filter is_synth evs = map (\<lambda>_. SetNoteOff 0 (active_note_pitch s) 0)
                 (filter (\<lambda>b. b) (drop (Suc ?n) ?ks))"
        using n by auto
      have "take (Suc ?n) ?ks = take ?n ?ks @ [False]"
        using n kp by (simp add: take_Suc_conv_app_nth)
      moreover have "drop ?n ?ks = False # drop (Suc ?n) ?ks"
        using n kp by (simp flip: Cons_nth_drop_Suc)
      ultimately show ?thesis
        using e g kp True rp by (subst releaseKeys.simps) simp
    next
      case kp: True
      let ?s1 = "s\<lparr>key_pressed := ?ks[?n := False]\<rparr>"
      have st: "arr_set ?ks i False = Some (?ks[?n := False])"
        using True 1 by (simp add: arr_set_def)
      have "(word_of_int i :: 8 word) \<le> 16"
        using True "1.prems" by (simp add: word8_of_int_le16)
      then obtain d where d: "drawTine (word_of_int i) False = Some d" "filter is_synth d = []"
        using drawTine_Some by blast
      have "length (key_pressed ?s1) = 17" using "1.prems" by simp
      from "1.IH"(1) [OF True g kp st refl d(1) this] "1.prems"
      obtain evs where e: "releaseKeys (i + 1) ?s1 =
          Some (?s1\<lparr>key_pressed := take (Suc ?n) (?ks[?n := False]) @ replicate (17 - Suc ?n) False\<rparr>, evs)"
        "filter is_synth evs = map (\<lambda>_. SetNoteOff 0 (active_note_pitch s) 0)
                 (filter (\<lambda>b. b) (drop (Suc ?n) (?ks[?n := False])))"
        using n by auto
      have "take (Suc ?n) (?ks[?n := False]) = take ?n ?ks @ [False]"
        using n by (simp add: take_Suc_conv_app_nth)
      moreover have "drop ?n ?ks = True # drop (Suc ?n) ?ks"
        using n kp by (simp flip: Cons_nth_drop_Suc)
      ultimately show ?thesis
        using e g kp True rp st d by (subst releaseKeys.simps) simp
    qed
  qed
qed

lemma releaseKeys_all:
  assumes "length (key_pressed s) = 17"
  shows "\<exists>evs. releaseKeys 0 s = Some (s\<lparr>key_pressed := replicate 17 False\<rparr>, evs) \<and>
           filter is_synth evs =
             map (\<lambda>_. SetNoteOff 0 (active_note_pitch s) 0) (filter (\<lambda>b. b) (key_pressed s))"
  using releaseKeys_gen [OF assms, of 0] by simp


lemma scanTines_range: "- 1 \<le> scanTines pos x y \<and> scanTines pos x y \<le> 16"
proof (induction pos x y rule: scanTines.induct)
  case (1 pos x y)
  show ?case
  proof (cases "pos < 17")
    case False
    then show ?thesis by (simp add: scanTines.simps)
  next
    case True
    then have "uint pos \<le> 16" by (simp add: word_less_def)
    moreover have "- 1 \<le> uint pos" using uint_ge_0 [of pos] by linarith
    ultimately show ?thesis using True "1.IH"
      by (subst (1 2) scanTines.simps) (auto simp: Let_def)
  qed
qed

lemma getKeyAtPosition_range: "- 1 \<le> getKeyAtPosition x y \<and> getKeyAtPosition x y \<le> 16"
  using scanTines_range [of 0 x y] by (simp add: getKeyAtPosition_def)

lemma drawModeIndicator_eq:
  "\<exists>ev. drawModeIndicator off s = (s\<lparr>prev_offset := off\<rparr>, ev) \<and> filter is_synth ev = []"
  by (cases "off = prev_offset s") (auto simp: drawModeIndicator_def)

lemma sint8_small_le16:
  fixes w :: "8 word"
  assumes "0 \<le> sint w" "sint w \<le> 16"
  shows "w \<le> 16" and "uint w = sint w"
proof -
  have "uint w = take_bit 8 (sint w)" using uint_sint [of w] by simp
  also have "\<dots> = sint w" using assms by (simp add: take_bit_int_eq_self)
  finally show u: "uint w = sint w" .
  with assms(2) show "w \<le> 16" by (simp add: word_le_def)
qed

lemma loop1_touch_switch:
  assumes "length (key_pressed s) = 17"
    and "0 \<le> sint (active_tine s)" and "sint (active_tine s) \<le> 16"
    and "sint (active_tine s) \<noteq> P"
    and "0 \<le> P" and "P \<le> 16" and "\<not> key_pressed s ! nat P"
  shows "\<exists>d_old d_new.
           drawTine (active_tine s) False = Some d_old \<and> filter is_synth d_old = [] \<and>
           drawTine (word_of_int P) True = Some d_new \<and> filter is_synth d_new = [] \<and>
           loop1_touch P off s =
             Some (s\<lparr>key_pressed := (key_pressed s)[nat (sint (active_tine s)) := False, nat P := True],
                     active_tine := word_of_int P,
                     active_note_pitch := tine_notes ! nat P + off\<rparr>,
                   SetNoteOff 0 (active_note_pitch s) 0 # d_old @
                   SetNoteOn 0 (tine_notes ! nat P + off) 100 # d_new)"
proof -
  let ?ks = "key_pressed s"
  let ?a = "sint (active_tine s)"
  have g: "arr_get ?ks P = Some False" using assms by (simp add: arr_get_def)
  have "(word_of_int P :: 8 word) \<le> 16" using assms by (simp add: word8_of_int_le16)
  then obtain d_new where dn: "drawTine (word_of_int P) True = Some d_new" "filter is_synth d_new = []"
    using drawTine_Some by blast
  have nt: "arr_get tine_notes P = Some (tine_notes ! nat P)"
    using assms by (simp add: arr_get_def tine_notes_def)
  have "active_tine s \<le> 16" using assms(2,3) sint8_small_le16 by blast
  then obtain d_old where d: "drawTine (active_tine s) False = Some d_old" "filter is_synth d_old = []"
    using drawTine_Some by blast
  have st: "arr_set ?ks ?a False = Some (?ks[nat ?a := False])"
    using assms by (simp add: arr_set_def)
  have st2: "arr_set (?ks[nat ?a := False]) P True = Some (?ks[nat ?a := False, nat P := True])"
    using assms by (simp add: arr_set_def)
  from g dn nt d st st2 assms(2,4,5) show ?thesis
    by (simp add: loop1_touch_def Let_def)
qed

lemma loop1_touch_fresh:
  assumes "length (key_pressed s) = 17"
    and "\<not> (0 \<le> sint (active_tine s) \<and> sint (active_tine s) \<noteq> P)"
    and "0 \<le> P" and "P \<le> 16" and "\<not> key_pressed s ! nat P"
  shows "\<exists>d_new.
           drawTine (word_of_int P) True = Some d_new \<and> filter is_synth d_new = [] \<and>
           loop1_touch P off s =
             Some (s\<lparr>key_pressed := (key_pressed s)[nat P := True],
                     active_tine := word_of_int P,
                     active_note_pitch := tine_notes ! nat P + off\<rparr>,
                   SetNoteOn 0 (tine_notes ! nat P + off) 100 # d_new)"
proof -
  let ?ks = "key_pressed s"
  have g: "arr_get ?ks P = Some False" using assms by (simp add: arr_get_def)
  have "(word_of_int P :: 8 word) \<le> 16" using assms by (simp add: word8_of_int_le16)
  then obtain d_new where dn: "drawTine (word_of_int P) True = Some d_new" "filter is_synth d_new = []"
    using drawTine_Some by blast
  have nt: "arr_get tine_notes P = Some (tine_notes ! nat P)"
    using assms by (simp add: arr_get_def tine_notes_def)
  have st2: "arr_set ?ks P True = Some (?ks[nat P := True])"
    using assms by (simp add: arr_set_def)
  from g dn nt st2 assms(2,3) show ?thesis
    by (auto simp: loop1_touch_def Let_def)
qed

lemma loop1_touch_idle:
  assumes "length (key_pressed s) = 17" and "- 1 \<le> P" and "P \<le> 16"
    and "P = - 1 \<or> key_pressed s ! nat P"
  shows "loop1_touch P off s = Some (s, [])"
  using assms by (auto simp: loop1_touch_def arr_get_def)

lemma loop1_release:
  assumes "length (key_pressed s) = 17" and "Touch_points inp = 0"
  shows "\<exists>evs. loop1 inp s =
             Some (s\<lparr>key_pressed := replicate 17 False, active_tine := - 1,
                     active_note_pitch := 0, prev_offset := semitone_offset inp\<rparr>, evs) \<and>
           filter is_synth evs =
             map (\<lambda>_. SetNoteOff 0 (active_note_pitch s) 0) (filter (\<lambda>b. b) (key_pressed s))"
proof -
  let ?s1 = "s\<lparr>prev_offset := semitone_offset inp\<rparr>"
  obtain ev where m: "drawModeIndicator (semitone_offset inp) s = (?s1, ev)" "filter is_synth ev = []"
    using drawModeIndicator_eq by blast
  have "length (key_pressed ?s1) = 17" using assms(1) by simp
  from releaseKeys_all [OF this]
  obtain evs where r: "releaseKeys 0 ?s1 = Some (?s1\<lparr>key_pressed := replicate 17 False\<rparr>, evs)"
    "filter is_synth evs =
       map (\<lambda>_. SetNoteOff 0 (active_note_pitch s) 0) (filter (\<lambda>b. b) (key_pressed s))"
    by auto
  from m r assms(2) show ?thesis by (simp add: loop1_def Let_def)
qed

lemma loop1_hold:
  assumes "length (key_pressed s) = 17" and "Touch_points inp \<noteq> 0"
    and "\<not> Touch_changed inp \<or> getKeyAtPosition (point0_x inp) (point0_y inp) = - 1
         \<or> key_pressed s ! nat (getKeyAtPosition (point0_x inp) (point0_y inp))"
  shows "\<exists>evs. loop1 inp s = Some (s\<lparr>prev_offset := semitone_offset inp\<rparr>, evs) \<and>
           filter is_synth evs = []"
proof -
  let ?s1 = "s\<lparr>prev_offset := semitone_offset inp\<rparr>"
  let ?P = "getKeyAtPosition (point0_x inp) (point0_y inp)"
  obtain ev where m: "drawModeIndicator (semitone_offset inp) s = (?s1, ev)" "filter is_synth ev = []"
    using drawModeIndicator_eq by blast
  have "Touch_changed inp \<Longrightarrow> loop1_touch ?P (semitone_offset inp) ?s1 = Some (?s1, [])"
    using assms getKeyAtPosition_range [of "point0_x inp" "point0_y inp"]
    by (intro loop1_touch_idle) auto
  with m assms(2) show ?thesis by (auto simp: loop1_def Let_def)
qed

lemma loop1_press_switch:
  assumes "length (key_pressed s) = 17"
    and "0 \<le> sint (active_tine s)" and "sint (active_tine s) \<le> 16"
    and "Touch_changed inp" and "Touch_points inp \<noteq> 0"
    and "getKeyAtPosition (point0_x inp) (point0_y inp) = P"
    and "sint (active_tine s) \<noteq> P"
    and "0 \<le> P" and "\<not> key_pressed s ! nat P"
  shows "\<exists>ev_mode d_old d_new.
           filter is_synth ev_mode = [] \<and>
           drawTine (active_tine s) False = Some d_old \<and> filter is_synth d_old = [] \<and>
           drawTine (word_of_int P) True = Some d_new \<and> filter is_synth d_new = [] \<and>
           loop1 inp s =
             Some (s\<lparr>key_pressed := (key_pressed s)[nat (sint (active_tine s)) := False, nat P := True],
                     active_tine := word_of_int P,
                     active_note_pitch := tine_notes ! nat P + semitone_offset inp,
                     prev_offset := semitone_offset inp\<rparr>,
                   ev_mode @ SetNoteOff 0 (active_note_pitch s) 0 # d_old @
                   SetNoteOn 0 (tine_notes ! nat P + semitone_offset inp) 100 # d_new @ [Delay 10])"
proof -
  let ?s1 = "s\<lparr>prev_offset := semitone_offset inp\<rparr>"
  obtain ev where m: "drawModeIndicator (semitone_offset inp) s = (?s1, ev)" "filter is_synth ev = []"
    using drawModeIndicator_eq by blast
  have P16: "P \<le> 16" using getKeyAtPosition_range [of "point0_x inp" "point0_y inp"] assms(6) by simp
  have "\<exists>d_old d_new.
           drawTine (active_tine ?s1) False = Some d_old \<and> filter is_synth d_old = [] \<and>
           drawTine (word_of_int P) True = Some d_new \<and> filter is_synth d_new = [] \<and>
           loop1_touch P (semitone_offset inp) ?s1 =
             Some (?s1\<lparr>key_pressed := (key_pressed ?s1)[nat (sint (active_tine ?s1)) := False, nat P := True],
                     active_tine := word_of_int P,
                     active_note_pitch := tine_notes ! nat P + semitone_offset inp\<rparr>,
                   SetNoteOff 0 (active_note_pitch ?s1) 0 # d_old @
                   SetNoteOn 0 (tine_notes ! nat P + semitone_offset inp) 100 # d_new)"
    using assms P16 by (intro loop1_touch_switch) simp_all
  then obtain d_old d_new where t:
    "drawTine (active_tine s) False = Some d_old" "filter is_synth d_old = []"
    "drawTine (word_of_int P) True = Some d_new" "filter is_synth d_new = []"
    "loop1_touch P (semitone_offset inp) ?s1 =
             Some (?s1\<lparr>key_pressed := (key_pressed s)[nat (sint (active_tine s)) := False, nat P := True],
                     active_tine := word_of_int P,
                     active_note_pitch := tine_notes ! nat P + semitone_offset inp\<rparr>,
                   SetNoteOff 0 (active_note_pitch s) 0 # d_old @
                   SetNoteOn 0 (tine_notes ! nat P + semitone_offset inp) 100 # d_new)"
    by auto
  have "loop1 inp s =
             Some (s\<lparr>key_pressed := (key_pressed s)[nat (sint (active_tine s)) := False, nat P := True],
                     active_tine := word_of_int P,
                     active_note_pitch := tine_notes ! nat P + semitone_offset inp,
                     prev_offset := semitone_offset inp\<rparr>,
                   ev @ SetNoteOff 0 (active_note_pitch s) 0 # d_old @
                   SetNoteOn 0 (tine_notes ! nat P + semitone_offset inp) 100 # d_new @ [Delay 10])"
    using m(1) t(5) assms(4,5,6) by (simp add: loop1_def Let_def word_greater_zero_iff)
  with m(2) t(1-4) show ?thesis by blast
qed

lemma loop1_press_fresh:
  assumes "length (key_pressed s) = 17"
    and "\<not> (0 \<le> sint (active_tine s) \<and> sint (active_tine s) \<noteq> P)"
    and "Touch_changed inp" and "Touch_points inp \<noteq> 0"
    and "getKeyAtPosition (point0_x inp) (point0_y inp) = P"
    and "0 \<le> P" and "\<not> key_pressed s ! nat P"
  shows "\<exists>ev_mode d_new.
           filter is_synth ev_mode = [] \<and>
           drawTine (word_of_int P) True = Some d_new \<and> filter is_synth d_new = [] \<and>
           loop1 inp s =
             Some (s\<lparr>key_pressed := (key_pressed s)[nat P := True],
                     active_tine := word_of_int P,
                     active_note_pitch := tine_notes ! nat P + semitone_offset inp,
                     prev_offset := semitone_offset inp\<rparr>,
                   ev_mode @
                   SetNoteOn 0 (tine_notes ! nat P + semitone_offset inp) 100 # d_new @ [Delay 10])"
proof -
  let ?s1 = "s\<lparr>prev_offset := semitone_offset inp\<rparr>"
  obtain ev where m: "drawModeIndicator (semitone_offset inp) s = (?s1, ev)" "filter is_synth ev = []"
    using drawModeIndicator_eq by blast
  have P16: "P \<le> 16" using getKeyAtPosition_range [of "point0_x inp" "point0_y inp"] assms(5) by simp
  have "\<exists>d_new.
           drawTine (word_of_int P) True = Some d_new \<and> filter is_synth d_new = [] \<and>
           loop1_touch P (semitone_offset inp) ?s1 =
             Some (?s1\<lparr>key_pressed := (key_pressed ?s1)[nat P := True],
                     active_tine := word_of_int P,
                     active_note_pitch := tine_notes ! nat P + semitone_offset inp\<rparr>,
                   SetNoteOn 0 (tine_notes ! nat P + semitone_offset inp) 100 # d_new)"
    using assms P16 by (intro loop1_touch_fresh) simp_all
  then obtain d_new where t:
    "drawTine (word_of_int P) True = Some d_new" "filter is_synth d_new = []"
    "loop1_touch P (semitone_offset inp) ?s1 =
             Some (?s1\<lparr>key_pressed := (key_pressed s)[nat P := True],
                     active_tine := word_of_int P,
                     active_note_pitch := tine_notes ! nat P + semitone_offset inp\<rparr>,
                   SetNoteOn 0 (tine_notes ! nat P + semitone_offset inp) 100 # d_new)"
    by auto
  have "loop1 inp s =
             Some (s\<lparr>key_pressed := (key_pressed s)[nat P := True],
                     active_tine := word_of_int P,
                     active_note_pitch := tine_notes ! nat P + semitone_offset inp,
                     prev_offset := semitone_offset inp\<rparr>,
                   ev @
                   SetNoteOn 0 (tine_notes ! nat P + semitone_offset inp) 100 # d_new @ [Delay 10])"
    using m(1) t(3) assms(3,4,5) by (simp add: loop1_def Let_def word_greater_zero_iff)
  with m(2) t(1,2) show ?thesis by blast
qed


lemma monophonic_len: "monophonic es S \<Longrightarrow> length S \<le> 1"
  by (cases es) simp_all

lemma sounding_filter:
  "monophonic evs S = monophonic (filter is_synth evs) S \<and>
   fold synth_step evs S = fold synth_step (filter is_synth evs) S"
proof (induction evs arbitrary: S)
  case Nil
  then show ?case by simp
next
  case (Cons e evs)
  then show ?case using monophonic_len [of "filter is_synth evs" S] by (cases e) auto
qed

lemma monophonic_append:
  "monophonic (xs @ ys) S \<longleftrightarrow> monophonic xs S \<and> monophonic ys (fold synth_step xs S)"
  using monophonic_len [of ys] by (induction xs arbitrary: S) auto

lemma inv1_init: "inv1 init1"
  by (simp add: inv1_def init1_def pressed_only_at_iff)

lemma no_flag_iff: "True \<notin> set ks \<longleftrightarrow> filter (\<lambda>b. b) ks = []"
  by (induction ks) auto

lemma loop1_step:
  assumes "inv1 s"
  shows "\<exists>s' evs. loop1 inp s = Some (s', evs) \<and> inv1 s' \<and>
           monophonic evs (sounding1 s) \<and> fold synth_step evs (sounding1 s) = sounding1 s'"
proof -
  let ?ks = "key_pressed s"
  let ?a = "sint (active_tine s)"
  let ?P = "getKeyAtPosition (point0_x inp) (point0_y inp)"
  from assms have len: "length ?ks = 17" and a: "- 1 \<le> ?a" "?a \<le> 16"
    and only: "\<forall>i<17. ?ks ! i \<longrightarrow> int i = ?a"
    by (simp_all add: inv1_def pressed_only_at_iff)
  have P: "- 1 \<le> ?P" "?P \<le> 16" using getKeyAtPosition_range by simp_all
  consider (release) "Touch_points inp = 0"
    | (hold) "Touch_points inp \<noteq> 0" "\<not> Touch_changed inp \<or> ?P = - 1 \<or> ?ks ! nat ?P"
    | (switch) "Touch_points inp \<noteq> 0" "Touch_changed inp" "0 \<le> ?P" "\<not> ?ks ! nat ?P"
        "0 \<le> ?a" "?a \<noteq> ?P"
    | (fresh) "Touch_points inp \<noteq> 0" "Touch_changed inp" "0 \<le> ?P" "\<not> ?ks ! nat ?P"
        "\<not> (0 \<le> ?a \<and> ?a \<noteq> ?P)"
    using P by fastforce
  then show ?thesis
  proof cases
    case release
    from loop1_release [OF len release] obtain evs where
      e: "loop1 inp s = Some (s\<lparr>key_pressed := replicate 17 False, active_tine := - 1,
                     active_note_pitch := 0, prev_offset := semitone_offset inp\<rparr>, evs)"
        "filter is_synth evs =
           map (\<lambda>_. SetNoteOff 0 (active_note_pitch s) 0) (filter (\<lambda>b. b) ?ks)"
      by blast
    let ?s' = "s\<lparr>key_pressed := replicate 17 False, active_tine := - 1,
                     active_note_pitch := 0, prev_offset := semitone_offset inp\<rparr>"
    have i: "inv1 ?s'" by (simp add: inv1_def pressed_only_at_iff)
    have s': "sounding1 ?s' = []" by (simp add: sounding1_def)
    have "length (filter (\<lambda>b. b) ?ks) \<le> 1"
      using assms by (auto simp: inv1_def dest: pressed_only_at_count)
    then consider "filter (\<lambda>b. b) ?ks = []" | "\<exists>b. filter (\<lambda>b. b) ?ks = [b]"
      by (cases "filter (\<lambda>b. b) ?ks") (auto simp: length_Suc_conv)
    then have "monophonic (filter is_synth evs) (sounding1 s) \<and>
               fold synth_step (filter is_synth evs) (sounding1 s) = []"
    proof cases
      case 1
      then have "True \<notin> set ?ks" by (simp add: no_flag_iff)
      with 1 e(2) show ?thesis by (simp add: sounding1_def)
    next
      case 2
      then obtain b where b: "filter (\<lambda>b. b) ?ks = [b]" by blast
      then have "True \<in> set ?ks" using no_flag_iff [of ?ks] by auto
      with b e(2) show ?thesis by (simp add: sounding1_def)
    qed
    then have "monophonic evs (sounding1 s) \<and> fold synth_step evs (sounding1 s) = sounding1 ?s'"
      using sounding_filter [of evs "sounding1 s"] s' by simp
    with e(1) i show ?thesis by blast
  next
    case hold
    from loop1_hold [OF len hold] obtain evs where
      e: "loop1 inp s = Some (s\<lparr>prev_offset := semitone_offset inp\<rparr>, evs)"
        "filter is_synth evs = []"
      by blast
    have "inv1 (s\<lparr>prev_offset := semitone_offset inp\<rparr>)" using assms by (simp add: inv1_def)
    moreover have "sounding1 (s\<lparr>prev_offset := semitone_offset inp\<rparr>) = sounding1 s"
      by (simp add: sounding1_def)
    moreover have "monophonic evs (sounding1 s) \<and> fold synth_step evs (sounding1 s) = sounding1 s"
      using sounding_filter [of evs "sounding1 s"] e(2) by (simp add: sounding1_def)
    ultimately show ?thesis using e(1) by auto
  next
    case switch
    let ?s' = "s\<lparr>key_pressed := ?ks[nat ?a := False, nat ?P := True],
                     active_tine := word_of_int ?P,
                     active_note_pitch := tine_notes ! nat ?P + semitone_offset inp,
                     prev_offset := semitone_offset inp\<rparr>"
    from loop1_press_switch [OF len switch(5) a(2) switch(2) switch(1) refl switch(6) switch(3) switch(4)]
    obtain ev_mode d_old d_new where
      e: "filter is_synth ev_mode = []" "filter is_synth d_old = []" "filter is_synth d_new = []"
        "loop1 inp s = Some (?s', ev_mode @ SetNoteOff 0 (active_note_pitch s) 0 # d_old @
                   SetNoteOn 0 (tine_notes ! nat ?P + semitone_offset inp) 100 # d_new @ [Delay 10])"
      by blast
    have sP: "sint (word_of_int ?P :: 8 word) = ?P"
      using switch(3) P(2) by (rule sint8_of_int)
    have "\<forall>i<17. ?ks[nat ?a := False, nat ?P := True] ! i \<longrightarrow> int i = ?P"
    proof (intro allI impI)
      fix i :: nat
      assume i: "i < 17" "?ks[nat ?a := False, nat ?P := True] ! i"
      show "int i = ?P"
      proof (cases "i = nat ?P")
        case True
        with switch(3) show ?thesis by simp
      next
        case False
        with i have 1: "?ks[nat ?a := False] ! i" by simp
        have ne: "i \<noteq> nat ?a"
        proof
          assume "i = nat ?a"
          with 1 i(1) len show False by simp
        qed
        with 1 have "?ks ! i" by simp
        with only i(1) have "int i = ?a" by simp
        then have "i = nat ?a" by simp
        with ne show ?thesis by simp
      qed
    qed
    with sP len P switch(3) have i: "inv1 ?s'" by (simp add: inv1_def pressed_only_at_iff)
    have lt: "nat ?P < length (?ks[nat ?a := False, nat ?P := True])"
      using len P switch(3) by simp
    then have "?ks[nat ?a := False, nat ?P := True] ! nat ?P = True" by simp
    moreover have "?ks[nat ?a := False, nat ?P := True] ! nat ?P
                     \<in> set (?ks[nat ?a := False, nat ?P := True])"
      using lt by (rule nth_mem)
    ultimately have "True \<in> set (?ks[nat ?a := False, nat ?P := True])" by simp
    then have s': "sounding1 ?s' = [tine_notes ! nat ?P + semitone_offset inp]"
      by (simp add: sounding1_def)
    let ?evs = "ev_mode @ SetNoteOff 0 (active_note_pitch s) 0 # d_old @
                   SetNoteOn 0 (tine_notes ! nat ?P + semitone_offset inp) 100 # d_new @ [Delay 10]"
    have f: "filter is_synth ?evs = [SetNoteOff 0 (active_note_pitch s) 0,
               SetNoteOn 0 (tine_notes ! nat ?P + semitone_offset inp) 100]"
      using e(1-3) by simp
    have "monophonic (filter is_synth ?evs) (sounding1 s) \<and>
          fold synth_step (filter is_synth ?evs) (sounding1 s) = sounding1 ?s'"
      unfolding f s' by (simp add: sounding1_def)
    then have "monophonic ?evs (sounding1 s) \<and> fold synth_step ?evs (sounding1 s) = sounding1 ?s'"
      using sounding_filter [of ?evs "sounding1 s"] by simp
    with e(4) i show ?thesis by blast
  next
    case fresh
    let ?s' = "s\<lparr>key_pressed := ?ks[nat ?P := True],
                     active_tine := word_of_int ?P,
                     active_note_pitch := tine_notes ! nat ?P + semitone_offset inp,
                     prev_offset := semitone_offset inp\<rparr>"
    from loop1_press_fresh [OF len fresh(5) fresh(2) fresh(1) refl fresh(3) fresh(4)]
    obtain ev_mode d_new where
      e: "filter is_synth ev_mode = []" "filter is_synth d_new = []"
        "loop1 inp s = Some (?s', ev_mode @
                   SetNoteOn 0 (tine_notes ! nat ?P + semitone_offset inp) 100 # d_new @ [Delay 10])"
      by blast
    have sP: "sint (word_of_int ?P :: 8 word) = ?P"
      using fresh(3) P(2) by (rule sint8_of_int)
    have none: "\<forall>i<17. \<not> ?ks ! i"
    proof (intro allI impI notI)
      fix i :: nat assume "i < 17" "?ks ! i"
      with only have "int i = ?a" by simp
      with fresh(5) have "?a = ?P" by simp
      with \<open>int i = ?a\<close> have "nat ?P = i" by simp
      with \<open>?ks ! i\<close> fresh(4) show False by simp
    qed
    then have "True \<notin> set ?ks" using len by (auto simp: in_set_conv_nth)
    then have s0: "sounding1 s = []" by (simp add: sounding1_def)
    have "\<forall>i<17. ?ks[nat ?P := True] ! i \<longrightarrow> int i = ?P"
    proof (intro allI impI)
      fix i :: nat
      assume i: "i < 17" "?ks[nat ?P := True] ! i"
      show "int i = ?P"
      proof (cases "i = nat ?P")
        case True
        with fresh(3) show ?thesis by simp
      next
        case False
        with i have "?ks ! i" by simp
        with none i(1) show ?thesis by simp
      qed
    qed
    with sP len P fresh(3) have i: "inv1 ?s'" by (simp add: inv1_def pressed_only_at_iff)
    have lt: "nat ?P < length (?ks[nat ?P := True])" using len P fresh(3) by simp
    then have "?ks[nat ?P := True] ! nat ?P = True" by simp
    moreover have "?ks[nat ?P := True] ! nat ?P \<in> set (?ks[nat ?P := True])"
      using lt by (rule nth_mem)
    ultimately have "True \<in> set (?ks[nat ?P := True])" by simp
    then have s': "sounding1 ?s' = [tine_notes ! nat ?P + semitone_offset inp]"
      by (simp add: sounding1_def)
    let ?evs = "ev_mode @
                   SetNoteOn 0 (tine_notes ! nat ?P + semitone_offset inp) 100 # d_new @ [Delay 10]"
    have f: "filter is_synth ?evs = [SetNoteOn 0 (tine_notes ! nat ?P + semitone_offset inp) 100]"
      using e(1,2) by simp
    have "monophonic (filter is_synth ?evs) (sounding1 s) \<and>
          fold synth_step (filter is_synth ?evs) (sounding1 s) = sounding1 ?s'"
      unfolding f s' s0 by simp
    then have "monophonic ?evs (sounding1 s) \<and> fold synth_step ?evs (sounding1 s) = sounding1 ?s'"
      using sounding_filter [of ?evs "sounding1 s"] by simp
    with e(3) i show ?thesis by blast
  qed
qed


lemma run1_step:
  assumes "inv1 s"
  shows "\<exists>s' evs. run1 inps s = Some (s', evs) \<and> inv1 s' \<and>
           monophonic evs (sounding1 s) \<and> fold synth_step evs (sounding1 s) = sounding1 s'"
  using assms
proof (induction inps arbitrary: s)
  case Nil
  then show ?case
    by (auto simp: sounding1_def)
next
  case (Cons inp inps)
  from loop1_step [OF Cons.prems, of inp] obtain s1 e1 where
    1: "loop1 inp s = Some (s1, e1)" "inv1 s1" "monophonic e1 (sounding1 s)"
      "fold synth_step e1 (sounding1 s) = sounding1 s1"
    by blast
  from Cons.IH [OF 1(2)] obtain s2 e2 where
    2: "run1 inps s1 = Some (s2, e2)" "inv1 s2" "monophonic e2 (sounding1 s1)"
      "fold synth_step e2 (sounding1 s1) = sounding1 s2"
    by blast
  from 1 2 have "run1 (inp # inps) s = Some (s2, e1 @ e2)" by simp
  moreover have "monophonic (e1 @ e2) (sounding1 s)"
    using 1 2 by (simp add: monophonic_append)
  moreover have "fold synth_step (e1 @ e2) (sounding1 s) = sounding1 s2"
    using 1 2 by simp
  ultimately show ?case using 2(2) by blast
qed

lemma run1_hold:
  assumes "length (key_pressed s) = 17" and "0 \<le> P" and "key_pressed s ! nat P"
    and "\<forall>h \<in> set hs. Touch_points h \<noteq> 0 \<and>
           (Touch_changed h \<longrightarrow> getKeyAtPosition (point0_x h) (point0_y h) = P)"
  shows "\<exists>s' evs. run1 hs s = Some (s', evs) \<and> filter is_synth evs = [] \<and>
           key_pressed s' = key_pressed s \<and> active_tine s' = active_tine s \<and>
           active_note_pitch s' = active_note_pitch s"
  using assms
proof (induction hs arbitrary: s)
  case Nil
  then show ?case by simp
next
  case (Cons h hs)
  let ?s1 = "s\<lparr>prev_offset := semitone_offset h\<rparr>"
  have "Touch_points h \<noteq> 0" using Cons.prems(4) by simp
  moreover have "\<not> Touch_changed h \<or> getKeyAtPosition (point0_x h) (point0_y h) = - 1
         \<or> key_pressed s ! nat (getKeyAtPosition (point0_x h) (point0_y h))"
    using Cons.prems(3,4) by auto
  ultimately obtain e1 where 1: "loop1 h s = Some (?s1, e1)" "filter is_synth e1 = []"
    using loop1_hold [OF Cons.prems(1)] by blast
  have "\<exists>s' evs. run1 hs ?s1 = Some (s', evs) \<and> filter is_synth evs = [] \<and>
           key_pressed s' = key_pressed ?s1 \<and> active_tine s' = active_tine ?s1 \<and>
           active_note_pitch s' = active_note_pitch ?s1"
    using Cons.prems by (intro Cons.IH) simp_all
  then obtain s2 e2 where 2: "run1 hs ?s1 = Some (s2, e2)" "filter is_synth e2 = []"
    "key_pressed s2 = key_pressed s" "active_tine s2 = active_tine s"
    "active_note_pitch s2 = active_note_pitch s"
    by auto
  from 1 2 have "run1 (h # hs) s = Some (s2, e1 @ e2)" by simp
  with 1 2 show ?case by simp
qed

lemma exactly_one_flag:
  assumes "length (filter (\<lambda>b. b) ks) \<le> 1" and "n < length ks" and "ks ! n"
  shows "filter (\<lambda>b. b) ks = [True]"
proof -
  have "ks ! n \<in> set ks" using assms(2) by (rule nth_mem)
  with assms(3) have "True \<in> set (filter (\<lambda>b. b) ks)" by simp
  with assms(1) show ?thesis
    by (cases "filter (\<lambda>b. b) ks") auto
qed

lemma note_of_synth:
  "filter is_note_on evs = filter is_note_on (filter is_synth evs) \<and>
   filter is_note_off evs = filter is_note_off (filter is_synth evs)"
proof (induction evs)
  case Nil
  then show ?case by simp
next
  case (Cons e evs)
  then show ?case by (cases e) simp_all
qed

lemma tine_notes_range: "n < 17 \<Longrightarrow> 60 \<le> uint (tine_notes ! n) \<and> uint (tine_notes ! n) \<le> 88"
proof -
  assume "n < 17"
  then have "n \<in> set [0..<17]" by simp
  then show ?thesis
    apply (simp only: upt_conv_Cons set_simps insert_iff empty_iff)
    by (auto simp: tine_notes_def)
qed

lemma uint8_shift:
  fixes w :: "8 word"
  assumes "1 \<le> uint w" and "uint w \<le> 254"
  shows "uint (w + 1) = uint w + 1" and "uint (w + (- 1)) = uint w - 1"
proof -
  have "uint (w + 1) = (uint w + 1) mod 256" by (simp add: uint_word_ariths)
  also have "\<dots> = uint w + 1" using assms by simp
  finally show "uint (w + 1) = uint w + 1" .
  have "uint (w + (- 1)) = uint (w - 1)" by simp
  also have "\<dots> = (uint w - 1) mod 256" by (simp add: uint_word_ariths)
  also have "\<dots> = uint w - 1" using assms by simp
  finally show "uint (w + (- 1)) = uint w - 1" .
qed


lemma loop1_press_synth:
  assumes "inv1 s"
    and "Touch_changed inp" and "Touch_points inp \<noteq> 0"
    and "getKeyAtPosition (point0_x inp) (point0_y inp) = P" and "0 \<le> P"
    and "\<not> key_pressed s ! nat P"
  shows "\<exists>s' evs. loop1 inp s = Some (s', evs) \<and>
           filter is_synth evs =
             (if 0 \<le> sint (active_tine s) \<and> sint (active_tine s) \<noteq> P
              then [SetNoteOff 0 (active_note_pitch s) 0] else []) @
             [SetNoteOn 0 (tine_notes ! nat P + semitone_offset inp) 100] \<and>
           length (key_pressed s') = 17 \<and> key_pressed s' ! nat P \<and>
           active_note_pitch s' = tine_notes ! nat P + semitone_offset inp"
proof -
  from assms(1) have len: "length (key_pressed s) = 17" and a: "sint (active_tine s) \<le> 16"
    by (simp_all add: inv1_def)
  have "P \<le> 16" using getKeyAtPosition_range [of "point0_x inp" "point0_y inp"] assms(4) by simp
  with assms(5) len have lt: "nat P < length (key_pressed s)" by simp
  show ?thesis
  proof (cases "0 \<le> sint (active_tine s) \<and> sint (active_tine s) \<noteq> P")
    case True
    then have t: "0 \<le> sint (active_tine s)" "sint (active_tine s) \<noteq> P" by simp_all
    from loop1_press_switch [OF len t(1) a assms(2,3,4) t(2) assms(5,6)] True len lt
    show ?thesis by auto
  next
    case False
    from loop1_press_fresh [OF len False assms(2,3,4,5,6)] False len lt
    show ?thesis by auto
  qed
qed

lemma press_pitch:
  assumes "0 \<le> P" and "P \<le> 16"
  shows "(BtnC_isPressed inp \<longrightarrow>
            uint (tine_notes ! nat P + semitone_offset inp) = uint (tine_notes ! nat P) + 1) \<and>
         (\<not> BtnA_isPressed inp \<and> \<not> BtnC_isPressed inp \<longrightarrow>
            uint (tine_notes ! nat P + semitone_offset inp) = uint (tine_notes ! nat P)) \<and>
         (BtnA_isPressed inp \<and> \<not> BtnC_isPressed inp \<longrightarrow>
            uint (tine_notes ! nat P + semitone_offset inp) = uint (tine_notes ! nat P) - 1)"
proof -
  from assms have "nat P < 17" by simp
  then have r: "1 \<le> uint (tine_notes ! nat P)" "uint (tine_notes ! nat P) \<le> 254"
    using tine_notes_range [of "nat P"] by simp_all
  show ?thesis
    using uint8_shift [OF r] by (simp add: semitone_offset_def Let_def)
qed


lemma inv2_init: "inv2 init2"
  by (simp add: inv2_def init2_def barCount_def)

lemma loop2_step:
  assumes "inv2 s" and "length notes = 17"
  shows "\<exists>s' evs. loop2 notes inp s = Some (s', evs) \<and> inv2 s'"
proof -
  consider (on) "ispressed inp" "on_a_bar inp" | (off) "ispressed inp" "\<not> on_a_bar inp"
    | (rel) "\<not> ispressed inp"
    by blast
  then show ?thesis
  proof cases
    case on
    from loop2_pressed_on [OF on assms(2), of s] on(2) assms(1) show ?thesis
      by (auto simp: inv2_def on_a_bar_def)
  next
    case off
    from assms(1) have "- 1 \<le> selectedBar s" "selectedBar s < barCount" by (simp_all add: inv2_def)
    from loop2_pressed_off [OF off this, of "notes"] assms(1) show ?thesis
      by (auto simp: inv2_def barCount_def)
  next
    case rel
    from loop2_released [OF rel assms] assms(1) show ?thesis
      by (auto simp: inv2_def barCount_def)
  qed
qed

lemma run2_step:
  assumes "inv2 s" and "length notes = 17"
  shows "\<exists>s' evs. run2 notes inps s = Some (s', evs) \<and> inv2 s'"
  using assms(1)
proof (induction inps arbitrary: s)
  case Nil
  then show ?case by simp
next
  case (Cons inp inps)
  from loop2_step [OF Cons.prems assms(2), of inp] obtain s1 e1 where
    1: "loop2 notes inp s = Some (s1, e1)" "inv2 s1" by blast
  from Cons.IH [OF 1(2)] obtain s2 e2 where
    2: "run2 notes inps s1 = Some (s2, e2)" "inv2 s2" by blast
  from 1 2 show ?case by simp
qed

lemma run2_append:
  "run2 notes (xs @ ys) s =
     (case run2 notes xs s of None \<Rightarrow> None
      | Some (s1, e1) \<Rightarrow>
          (case run2 notes ys s1 of None \<Rightarrow> None | Some (s2, e2) \<Rightarrow> Some (s2, e1 @ e2)))"
proof (induction xs arbitrary: s)
  case Nil
  then show ?case by (simp split: option.splits)
next
  case (Cons x xs)
  then show ?case by (simp split: option.splits bind_splits)
qed

lemma run2_on_bar:
  assumes "xs \<noteq> []" and "length notes = 17"
    and "\<forall>i \<in> set xs. ispressed i \<and> on_a_bar i \<and> touched_bar i = B"
  shows "\<exists>evs. run2 notes xs s =
             Some (s\<lparr>selectedBar := B, lastPressedBar := B, wasPressed := True\<rparr>, evs) \<and>
           filter is_synth evs =
             (if selectedBar s = B then []
              else [SetNoteOn 0 (notes ! nat B) 127, SetNoteOff 0 (notes ! nat B) 127])"
  using assms(1,3)
proof (induction xs arbitrary: s rule: list_nonempty_induct)
  case (single x)
  then have x: "ispressed x" "on_a_bar x" "touched_bar x = B" by simp_all
  from loop2_pressed_on [OF x(1,2) assms(2), of s] x(3) show ?case by auto
next
  case (cons x xs)
  let ?s1 = "s\<lparr>selectedBar := B, lastPressedBar := B, wasPressed := True\<rparr>"
  from cons.prems have x: "ispressed x" "on_a_bar x" "touched_bar x = B" by simp_all
  from loop2_pressed_on [OF x(1,2) assms(2), of s] x(3) obtain e1 where
    1: "loop2 notes x s = Some (?s1, e1)"
    "filter is_synth e1 =
             (if selectedBar s = B then []
              else [SetNoteOn 0 (notes ! nat B) 127, SetNoteOff 0 (notes ! nat B) 127])"
    by auto
  have "\<forall>i \<in> set xs. ispressed i \<and> on_a_bar i \<and> touched_bar i = B" using cons.prems by simp
  from cons.IH [OF this, of ?s1] obtain e2 where
    2: "run2 notes xs ?s1 = Some (?s1, e2)" "filter is_synth e2 = []"
    by auto
  from 1 2 show ?case by simp
qed

lemma run2_idle:
  assumes "\<not> wasPressed s" and "\<forall>i \<in> set xs. \<not> ispressed i"
  shows "run2 notes xs s = Some (s, [])"
  using assms
proof (induction xs)
  case Nil
  then show ?case by simp
next
  case (Cons x xs)
  then have "loop2 notes x s = Some (s, [])" by (simp add: loop2_def Let_def)
  with Cons show ?case by simp
qed

lemma off_screen_miss2:
  assumes "320 \<le> press_x inp \<or> 240 \<le> press_y inp \<or> press_y inp < barY"
  shows "\<not> on_a_bar inp"
proof
  assume on: "on_a_bar inp"
  let ?B = "touched_bar inp"
  from on have B: "0 \<le> ?B" "?B < 17" "barY \<le> press_y inp" "press_y inp \<le> barY + getBarHeight ?B"
    by (simp_all add: on_a_bar_def barCount_def)
  from getBarHeight_range [OF B(1,2)] B(4) have "press_y inp \<le> 220" by (simp add: barY_def)
  with assms B(3) have "320 \<le> press_x inp" by simp
  then have "press_x inp sdiv 18 = press_x inp div 18" by (simp add: sdiv_nonneg)
  with \<open>320 \<le> press_x inp\<close> have "17 \<le> press_x inp sdiv 18" by simp
  with B(2) show False by (simp add: touched_bar_def barWidth_val)
qed

lemma tine_rect_bounds:
  assumes "pos \<le> 16"
  shows "uint (getTineX pos) + 16 \<le> 312"
    and "uint (BRIDGE_Y + getTineHeight pos) \<le> 172"
proof -
  define k where "k = uint pos"
  have k: "0 \<le> k" "k \<le> 16" using assms by (simp_all add: k_def word_le_def)
  then show "uint (getTineX pos) + 16 \<le> 312" using getTineX_uint [of pos] by (simp add: k_def)
  from k have "0 \<le> 150 - 8 * \<bar>k - 8\<bar>" "150 - 8 * \<bar>k - 8\<bar> \<le> 150" by arith+
  then have "0 \<le> uint (getTineHeight pos)" "uint (getTineHeight pos) \<le> 150"
    using getTineHeight_uint [OF assms] by (simp_all add: k_def)
  then have "(22 + uint (getTineHeight pos)) mod 65536 = 22 + uint (getTineHeight pos)"
    by simp
  with \<open>uint (getTineHeight pos) \<le> 150\<close> show "uint (BRIDGE_Y + getTineHeight pos) \<le> 172"
    by (simp add: BRIDGE_Y_def uint_word_ariths)
qed

lemma scanTines_miss:
  "312 \<le> uint x \<or> 172 < uint y \<Longrightarrow> scanTines pos x y = - 1"
proof (induction pos x y rule: scanTines.induct)
  case (1 pos x y)
  show ?case
  proof (cases "pos < 17")
    case False
    then show ?thesis by (simp add: scanTines.simps)
  next
    case True
    then have le: "pos \<le> 16" by (simp add: word_le_def word_less_def)
    note b = tine_rect_bounds [OF le]
    have nohit: "\<not> (getTineX pos \<le> x \<and> uint x < uint (getTineX pos) + uint TINE_WIDTH \<and>
                   BRIDGE_Y \<le> y \<and> y \<le> BRIDGE_Y + getTineHeight pos)"
      using "1.prems" b by (auto simp: TINE_WIDTH_def word_le_def)
    with True "1.IH" "1.prems" show ?thesis
      by (subst scanTines.simps) (auto simp: Let_def)
  qed
qed

lemma off_screen_miss1:
  assumes "DISPLAY_WIDTH \<le> x \<or> DISPLAY_HEIGHT \<le> y \<or> y < BRIDGE_Y"
  shows "getKeyAtPosition x y = - 1"
proof (cases "y < BRIDGE_Y")
  case True
  then show ?thesis by (simp add: getKeyAtPosition_def)
next
  case False
  with assms have "312 \<le> uint x \<or> 172 < uint y"
    by (auto simp: DISPLAY_WIDTH_def DISPLAY_HEIGHT_def word_le_def)
  from scanTines_miss [OF this] False show ?thesis by (simp add: getKeyAtPosition_def)
qed


lemma tine_name_lookup:
  fixes pos :: "8 word"
  assumes "pos \<le> 16"
  shows "arr_get tine_notes (uint pos) = Some (tine_notes ! unat pos)"
    and "arr_get note_names (uint (tine_notes ! unat pos mod 12)) =
           Some (note_names ! unat (tine_notes ! unat pos mod 12))"
proof -
  have "uint pos \<le> 16" using assms by (simp add: word_le_def)
  then show "arr_get tine_notes (uint pos) = Some (tine_notes ! unat pos)"
    by (simp add: arr_get_def tine_notes_def)
  have "uint (tine_notes ! unat pos mod 12) = uint (tine_notes ! unat pos) mod 12"
    by (simp add: uint_mod_distrib)
  then have "uint (tine_notes ! unat pos mod 12) < 12"
    by simp
  then show "arr_get note_names (uint (tine_notes ! unat pos mod 12)) =
      Some (note_names ! unat (tine_notes ! unat pos mod 12))"
    by (simp add: arr_get_def note_names_def)
qed

lemma noteNames_length: "length noteNames = 17"
  by (simp add: noteNames_def)

lemma sdiv_left_of_screen: "x \<le> - 18 \<Longrightarrow> x sdiv (18 :: int) \<le> - 1"
proof -
  assume x: "x \<le> - 18"
  then have "1 \<le> (- x) div 18" by simp
  moreover have "x sdiv 18 = - ((- x) div 18)"
    using x by (simp add: signed_divide_int_def sgn_if)
  ultimately show ?thesis by simp
qed

lemma left_of_screen_miss2:
  assumes "press_x inp \<le> - 18"
  shows "\<not> on_a_bar inp"
  using sdiv_left_of_screen [OF assms] by (simp add: on_a_bar_def touched_bar_def barWidth_val)


section \<open>Layout and hit test\<close>

text \<open>
  C4 (layout model).  For every position 0..16, variant 1's \<open>getTineHeight\<close> is the
  centre height minus the step times the distance from the centre index 8, and
  \<open>getTineX\<close> is the start offset plus the position times the pitch, the pitch being
  tine width plus gap; none of the 16-bit stores wraps.  Variant 2's \<open>getBarHeight\<close>
  has the same shape with its own constants, and its bar rectangle starts at offset 0 plus
  the index times \<open>barWidth\<close> and is drawn \<open>barWidth - 1\<close> wide.  The functions
  read no state and emit no event: they are functions of the position alone.
\<close>

theorem layout_model:
  assumes "pos \<le> 16" and "0 \<le> index" and "index \<le> 16"
  shows "uint (getTineHeight pos) = uint TINE_CENTER_HEIGHT - uint TINE_EDGE_STEP * \<bar>uint pos - 8\<bar> \<and>
         uint (getTineX pos) = uint TINE_START_X + uint pos * uint TINE_PITCH \<and>
         uint TINE_PITCH = uint TINE_WIDTH + uint TINE_GAP \<and>
         getBarHeight index = maxHeight - stepHeight * \<bar>index - 8\<bar> \<and>
         (\<exists>rest. drawSingleBar index color =
            Some (Lcd (FillRect (0 + index * barWidth) barY (barWidth - 1) (getBarHeight index) color) # rest))"
proof -
  have "uint (getTineHeight pos) = uint TINE_CENTER_HEIGHT - uint TINE_EDGE_STEP * \<bar>uint pos - 8\<bar>"
    using getTineHeight_uint [OF assms(1)] by (simp add: TINE_CENTER_HEIGHT_def TINE_EDGE_STEP_def)
  moreover have "uint (getTineX pos) = uint TINE_START_X + uint pos * uint TINE_PITCH"
    using getTineX_uint [of pos] by (simp add: TINE_START_X_val TINE_PITCH_val)
  moreover have "uint TINE_PITCH = uint TINE_WIDTH + uint TINE_GAP"
    by (simp add: TINE_PITCH_val TINE_WIDTH_def TINE_GAP_def)
  moreover have "getBarHeight index = maxHeight - stepHeight * \<bar>index - 8\<bar>"
    by (simp add: getBarHeight_def Let_def centerIndex_val)
  moreover have "\<exists>rest. drawSingleBar index color =
            Some (Lcd (FillRect (0 + index * barWidth) barY (barWidth - 1) (getBarHeight index) color) # rest)"
    using assms(2,3) by (simp add: drawSingleBar_def Let_def arr_get_def noteNames_def)
  ultimately show ?thesis by blast
qed

theorem layout_model_witness:
  "(3 :: 8 word) \<le> 16 \<and> (0 :: int) \<le> 16 \<and> (16 :: int) \<le> 16 \<and>
   uint (getTineHeight 3) = 110 \<and> uint (getTineX 3) = 62 \<and>
   getBarHeight 16 = 152 \<and>
   (\<exists>rest. drawSingleBar 16 barColor = Some (Lcd (FillRect 288 20 17 152 barColor) # rest))"
proof -
  have h: "(3 :: 8 word) \<le> 16" "(0 :: int) \<le> 16" "(16 :: int) \<le> 16" by simp_all
  from layout_model [OF h, of barColor] h show ?thesis
    by (auto simp: TINE_CENTER_HEIGHT_def TINE_EDGE_STEP_def TINE_START_X_val TINE_PITCH_val
        maxHeight_def stepHeight_def barWidth_val barY_def)
qed

text \<open>
  C5 (hit tester).  Variant 1: for every position 0..16 the point one pixel right of the
  tine's left edge and one pixel below the bridge line resolves to that position, and any
  point one pixel above the bridge line resolves to none (-1), whatever its x.  Variant 2,
  whose hit test is written inside its loop: a press at the corresponding point of bar
  \<open>index\<close> selects that bar, and a press one pixel above the bars selects none, leaves
  \<open>lastPressedBar\<close> alone and sends nothing to the synthesiser.
\<close>

theorem hit_tester:
  assumes "pos \<le> 16" and "0 \<le> index" and "index \<le> 16" and "length notes = 17"
    and "inv2 s"
  shows "getKeyAtPosition (getTineX pos + 1) (BRIDGE_Y + 1) = uint pos \<and>
         getKeyAtPosition x (BRIDGE_Y - 1) = - 1 \<and>
         (\<exists>s' evs. loop2 notes \<lparr>ispressed = True, press_x = index * barWidth + 1, press_y = barY + 1\<rparr> s
                      = Some (s', evs) \<and>
                    selectedBar s' = index \<and> lastPressedBar s' = index) \<and>
         (\<exists>s' evs. loop2 notes \<lparr>ispressed = True, press_x = x2, press_y = barY - 1\<rparr> s
                      = Some (s', evs) \<and>
                    selectedBar s' = - 1 \<and> lastPressedBar s' = lastPressedBar s \<and>
                    filter is_synth evs = [])"
proof -
  let ?hit = "\<lparr>ispressed = True, press_x = index * barWidth + 1, press_y = barY + 1\<rparr>"
  let ?miss = "\<lparr>ispressed = True, press_x = x2, press_y = barY - 1\<rparr>"
  have "(index * 18 + 1) sdiv 18 = index"
    using assms(2) by (simp add: sdiv_nonneg)
  then have tb: "touched_bar ?hit = index" by (simp add: touched_bar_def barWidth_val)
  moreover have "1 \<le> getBarHeight index"
    using getBarHeight_range [of index] assms(2,3) by simp
  ultimately have "on_a_bar ?hit"
    using assms(2,3) by (simp add: on_a_bar_def barCount_def)
  from loop2_pressed_on [where s = s, OF _ this assms(4)] tb
  have A: "\<exists>s' evs. loop2 notes ?hit s = Some (s', evs) \<and> selectedBar s' = index \<and> lastPressedBar s' = index"
    by auto
  have "\<not> on_a_bar ?miss" by (simp add: on_a_bar_def)
  from loop2_pressed_off [of _ s "notes", OF _ this] assms(5)
  have B: "\<exists>s' evs. loop2 notes ?miss s = Some (s', evs) \<and> selectedBar s' = - 1 \<and>
             lastPressedBar s' = lastPressedBar s \<and> filter is_synth evs = []"
    by (auto simp: inv2_def)
  from hit_inside [OF assms(1)] hit_above [of x] A B show ?thesis by blast
qed

theorem hit_tester_witness:
  "(16 :: 8 word) \<le> 16 \<and> (0 :: int) \<le> 16 \<and> (16 :: int) \<le> 16 \<and>
   length ([74, 71, 67, 64, 60, 57, 53, 50, 36, 52, 55, 59, 62, 65, 69, 72, 76] :: 8 word list) = 17 \<and>
   inv2 init2 \<and>
   getKeyAtPosition 297 23 = 16 \<and> getKeyAtPosition 297 21 = - 1 \<and>
   (\<exists>s' evs. loop2 [74, 71, 67, 64, 60, 57, 53, 50, 36, 52, 55, 59, 62, 65, 69, 72, 76]
                \<lparr>ispressed = True, press_x = 289, press_y = 21\<rparr> init2 = Some (s', evs) \<and>
              selectedBar s' = 16 \<and> lastPressedBar s' = 16) \<and>
   (\<exists>s' evs. loop2 [74, 71, 67, 64, 60, 57, 53, 50, 36, 52, 55, 59, 62, 65, 69, 72, 76]
                \<lparr>ispressed = True, press_x = 289, press_y = 19\<rparr> init2 = Some (s', evs) \<and>
              selectedBar s' = - 1 \<and> lastPressedBar s' = - 1 \<and> filter is_synth evs = [])"
proof -
  have h: "(16 :: 8 word) \<le> 16" "(0 :: int) \<le> 16" "(16 :: int) \<le> 16"
    "length ([74, 71, 67, 64, 60, 57, 53, 50, 36, 52, 55, 59, 62, 65, 69, 72, 76] :: 8 word list) = 17"
    "inv2 init2"
    by (simp_all add: inv2_def init2_def barCount_def)
  have g: "getTineX 16 + 1 = 297" "BRIDGE_Y + 1 = 23" "BRIDGE_Y - 1 = 21"
    by (simp_all add: getTineX_def TINE_START_X_val TINE_PITCH_val BRIDGE_Y_def)
  from hit_tester [OF h, of 297 289] h g show ?thesis
    by (simp add: barWidth_val barY_def init2_def)
qed


section \<open>Variant 1: the gesture state machine\<close>

text \<open>
  In the theorems of this section a press of tine \<open>P\<close> is a tick on which the touch
  controller reports a change and at least one point, the hit test of the first point
  returns \<open>P \<ge> 0\<close>, and the flag of \<open>P\<close> is not yet set.  The pitch stored and sent
  is \<^verbatim>\<open>tine_notes[pos] + semitone_offset\<close> cut to 8 bits, here the 8-bit sum
  \<open>tine_notes ! nat P + semitone_offset inp\<close>.
\<close>

text \<open>
  C6 (semitone shift).  A press of tine \<open>P\<close> emits exactly one note-on; its pitch is
  the base pitch of \<open>P\<close> plus 1 when the sharp button (C) is held, the base pitch when
  neither button is held, and the base pitch minus 1 when only the flat button (A) is
  held.  The sums do not wrap in 8 bits.
\<close>

theorem semitone_shift:
  assumes "inv1 s"
    and "Touch_changed inp" and "Touch_points inp > 0"
    and "getKeyAtPosition (point0_x inp) (point0_y inp) = P" and "0 \<le> P"
    and "\<not> key_pressed s ! nat P"
  shows "\<exists>s' evs pitch.
           loop1 inp s = Some (s', evs) \<and>
           filter is_note_on evs = [SetNoteOn 0 pitch 100] \<and>
           (BtnC_isPressed inp \<longrightarrow> uint pitch = uint (tine_notes ! nat P) + 1) \<and>
           (\<not> BtnA_isPressed inp \<and> \<not> BtnC_isPressed inp \<longrightarrow>
              uint pitch = uint (tine_notes ! nat P)) \<and>
           (BtnA_isPressed inp \<and> \<not> BtnC_isPressed inp \<longrightarrow>
              uint pitch = uint (tine_notes ! nat P) - 1)"
proof -
  let ?pitch = "tine_notes ! nat P + semitone_offset inp"
  have pts: "Touch_points inp \<noteq> 0" using assms(3) by (simp add: word_greater_zero_iff)
  have P16: "P \<le> 16"
    using getKeyAtPosition_range [of "point0_x inp" "point0_y inp"] assms(4) by simp
  from loop1_press_synth [OF assms(1,2) pts assms(4,5,6)]
  obtain s' evs where e: "loop1 inp s = Some (s', evs)"
    "filter is_synth evs =
          (if 0 \<le> sint (active_tine s) \<and> sint (active_tine s) \<noteq> P
           then [SetNoteOff 0 (active_note_pitch s) 0] else []) @ [SetNoteOn 0 ?pitch 100]"
    by blast
  have "filter is_note_on evs = [SetNoteOn 0 ?pitch 100]"
    using note_of_synth [of evs] e(2) by simp
  with e(1) press_pitch [OF assms(5) P16, of inp] show ?thesis by blast
qed

theorem semitone_shift_witness:
  "inv1 init1 \<and> getKeyAtPosition 63 23 = 3 \<and> \<not> key_pressed init1 ! nat 3 \<and>
   (\<exists>s' evs pitch.
      loop1 \<lparr>BtnA_isPressed = False, BtnC_isPressed = True, Touch_changed = True,
             Touch_points = 1, point0_x = 63, point0_y = 23\<rparr> init1 = Some (s', evs) \<and>
      filter is_note_on evs = [SetNoteOn 0 pitch 100] \<and> uint pitch = 77)"
proof -
  let ?inp = "\<lparr>BtnA_isPressed = False, BtnC_isPressed = True, Touch_changed = True,
             Touch_points = 1, point0_x = 63, point0_y = 23\<rparr>"
  have hit: "getKeyAtPosition 63 23 = 3"
    by (simp add: getKeyAtPosition_def scanTines.simps getTineX_def getTineHeight_def
        TINE_START_X_val TINE_PITCH_val BRIDGE_Y_def TINE_WIDTH_def TINE_CENTER_HEIGHT_def
        TINE_EDGE_STEP_def Let_def)
  have h: "Touch_changed ?inp" "Touch_points ?inp > 0"
    "getKeyAtPosition (point0_x ?inp) (point0_y ?inp) = 3" "(0 :: int) \<le> 3"
    "\<not> key_pressed init1 ! nat 3"
    using hit by (simp_all add: init1_def)
  from semitone_shift [OF inv1_init h] hit h(5) inv1_init show ?thesis
    by (simp add: tine_notes_def)
qed

text \<open>
  C10 (both buttons).  When flat (A) and sharp (C) are both held on the tick of a press of
  \<open>P\<close>, the sharp assignment comes second and wins: the offset is +1 and the note-on
  carries the base pitch of \<open>P\<close> plus 1.
\<close>

theorem both_buttons_sharp:
  assumes "inv1 s"
    and "Touch_changed inp" and "Touch_points inp > 0"
    and "getKeyAtPosition (point0_x inp) (point0_y inp) = P" and "0 \<le> P"
    and "\<not> key_pressed s ! nat P"
    and "BtnA_isPressed inp" and "BtnC_isPressed inp"
  shows "sint (semitone_offset inp) = 1 \<and>
         (\<exists>s' evs pitch.
            loop1 inp s = Some (s', evs) \<and>
            filter is_note_on evs = [SetNoteOn 0 pitch 100] \<and>
            uint pitch = uint (tine_notes ! nat P) + 1)"
proof -
  let ?pitch = "tine_notes ! nat P + semitone_offset inp"
  have off: "sint (semitone_offset inp) = 1"
    using assms(7,8) by (simp add: semitone_offset_def Let_def)
  have pts: "Touch_points inp \<noteq> 0" using assms(3) by (simp add: word_greater_zero_iff)
  have P16: "P \<le> 16"
    using getKeyAtPosition_range [of "point0_x inp" "point0_y inp"] assms(4) by simp
  from loop1_press_synth [OF assms(1,2) pts assms(4,5,6)]
  obtain s' evs where e: "loop1 inp s = Some (s', evs)"
    "filter is_synth evs =
          (if 0 \<le> sint (active_tine s) \<and> sint (active_tine s) \<noteq> P
           then [SetNoteOff 0 (active_note_pitch s) 0] else []) @ [SetNoteOn 0 ?pitch 100]"
    by blast
  have "filter is_note_on evs = [SetNoteOn 0 ?pitch 100]"
    using note_of_synth [of evs] e(2) by simp
  moreover have "uint ?pitch = uint (tine_notes ! nat P) + 1"
    using press_pitch [OF assms(5) P16, of inp] assms(8) by simp
  ultimately show ?thesis using e(1) off by blast
qed

theorem both_buttons_sharp_witness:
  "inv1 init1 \<and> getKeyAtPosition 153 23 = 8 \<and> \<not> key_pressed init1 ! nat 8 \<and>
   sint (semitone_offset \<lparr>BtnA_isPressed = True, BtnC_isPressed = True, Touch_changed = True,
             Touch_points = 1, point0_x = 153, point0_y = 23\<rparr>) = 1 \<and>
   (\<exists>s' evs pitch.
      loop1 \<lparr>BtnA_isPressed = True, BtnC_isPressed = True, Touch_changed = True,
             Touch_points = 1, point0_x = 153, point0_y = 23\<rparr> init1 = Some (s', evs) \<and>
      filter is_note_on evs = [SetNoteOn 0 pitch 100] \<and> uint pitch = 61)"
proof -
  let ?inp = "\<lparr>BtnA_isPressed = True, BtnC_isPressed = True, Touch_changed = True,
             Touch_points = 1, point0_x = 153, point0_y = 23\<rparr>"
  have hit: "getKeyAtPosition 153 23 = 8"
    by (simp add: getKeyAtPosition_def scanTines.simps getTineX_def getTineHeight_def
        TINE_START_X_val TINE_PITCH_val BRIDGE_Y_def TINE_WIDTH_def TINE_CENTER_HEIGHT_def
        TINE_EDGE_STEP_def Let_def)
  have h: "Touch_changed ?inp" "Touch_points ?inp > 0"
    "getKeyAtPosition (point0_x ?inp) (point0_y ?inp) = 8" "(0 :: int) \<le> 8"
    "\<not> key_pressed init1 ! nat 8" "BtnA_isPressed ?inp" "BtnC_isPressed ?inp"
    using hit by (simp_all add: init1_def)
  from both_buttons_sharp [OF inv1_init h] hit h(5) inv1_init show ?thesis
    by (simp add: tine_notes_def)
qed

text \<open>
  C1 (press, hold, release).  From any state satisfying the invariant \<open>inv1\<close> (every
  state the loop reaches does), a press of tine \<open>P\<close> emits exactly one note-on, for
  the base pitch of \<open>P\<close> plus the semitone offset of the press tick.  While the touch
  stays on \<open>P\<close> for any number of ticks (a point is reported and, whenever the
  controller flags a change, the hit test still returns \<open>P\<close>), nothing is sent to the
  synthesiser, whatever the buttons do.  The first tick without a touch point emits
  exactly one note-off, and its pitch is the one turned on: the offset of the press tick,
  not that of the release tick, enters it.
\<close>

theorem press_hold_release:
  assumes "inv1 s"
    and "Touch_changed p" and "Touch_points p > 0"
    and "getKeyAtPosition (point0_x p) (point0_y p) = P" and "0 \<le> P"
    and "\<not> key_pressed s ! nat P"
    and "\<forall>h \<in> set hs. Touch_points h > 0 \<and>
           (Touch_changed h \<longrightarrow> getKeyAtPosition (point0_x h) (point0_y h) = P)"
    and "Touch_points l = 0"
  shows "\<exists>s1 e1 s2 e2 s3 e3.
           loop1 p s = Some (s1, e1) \<and> run1 hs s1 = Some (s2, e2) \<and> loop1 l s2 = Some (s3, e3) \<and>
           filter is_note_on e1 = [SetNoteOn 0 (tine_notes ! nat P + semitone_offset p) 100] \<and>
           filter is_synth e2 = [] \<and>
           filter is_synth e3 = [SetNoteOff 0 (tine_notes ! nat P + semitone_offset p) 0]"
proof -
  let ?pitch = "tine_notes ! nat P + semitone_offset p"
  have pts: "Touch_points p \<noteq> 0" using assms(3) by (simp add: word_greater_zero_iff)
  from loop1_press_synth [OF assms(1,2) pts assms(4,5,6)]
  obtain s1 e1 where 1: "loop1 p s = Some (s1, e1)"
    "filter is_synth e1 =
          (if 0 \<le> sint (active_tine s) \<and> sint (active_tine s) \<noteq> P
           then [SetNoteOff 0 (active_note_pitch s) 0] else []) @ [SetNoteOn 0 ?pitch 100]"
    "length (key_pressed s1) = 17" "key_pressed s1 ! nat P" "active_note_pitch s1 = ?pitch"
    by blast
  have on: "filter is_note_on e1 = [SetNoteOn 0 ?pitch 100]"
    using note_of_synth [of e1] 1(2) by simp
  from loop1_step [OF assms(1), of p] 1(1) have "inv1 s1" by auto
  then have cnt: "length (filter (\<lambda>b. b) (key_pressed s1)) \<le> 1"
    by (auto simp: inv1_def dest: pressed_only_at_count)
  have hs: "\<forall>h \<in> set hs. Touch_points h \<noteq> 0 \<and>
           (Touch_changed h \<longrightarrow> getKeyAtPosition (point0_x h) (point0_y h) = P)"
    using assms(7) by (simp add: word_greater_zero_iff)
  from run1_hold [OF 1(3) assms(5) 1(4) hs]
  obtain s2 e2 where 2: "run1 hs s1 = Some (s2, e2)" "filter is_synth e2 = []"
    "key_pressed s2 = key_pressed s1" "active_note_pitch s2 = active_note_pitch s1"
    by blast
  have len2: "length (key_pressed s2) = 17" using 1(3) 2(3) by simp
  from loop1_release [OF len2 assms(8)]
  obtain s3 e3 where 3: "loop1 l s2 = Some (s3, e3)"
    "filter is_synth e3 =
       map (\<lambda>_. SetNoteOff 0 (active_note_pitch s2) 0) (filter (\<lambda>b. b) (key_pressed s2))"
    by blast
  have "P \<le> 16" using getKeyAtPosition_range [of "point0_x p" "point0_y p"] assms(4) by simp
  with assms(5) 1(3) have "nat P < length (key_pressed s1)" by simp
  from exactly_one_flag [OF cnt this 1(4)] have "filter (\<lambda>b. b) (key_pressed s2) = [True]"
    using 2(3) by simp
  with 3(2) 2(4) 1(5) have "filter is_synth e3 = [SetNoteOff 0 ?pitch 0]" by simp
  with 1(1) 2(1,2) 3(1) on show ?thesis by blast
qed

theorem press_hold_release_witness:
  "inv1 init1 \<and> getKeyAtPosition 63 23 = 3 \<and> \<not> key_pressed init1 ! nat 3 \<and>
   (\<exists>s1 e1 s2 e2 s3 e3.
      loop1 \<lparr>BtnA_isPressed = False, BtnC_isPressed = True, Touch_changed = True,
             Touch_points = 1, point0_x = 63, point0_y = 23\<rparr> init1 = Some (s1, e1) \<and>
      run1 [\<lparr>BtnA_isPressed = True, BtnC_isPressed = False, Touch_changed = False,
              Touch_points = 1, point0_x = 63, point0_y = 23\<rparr>] s1 = Some (s2, e2) \<and>
      loop1 \<lparr>BtnA_isPressed = False, BtnC_isPressed = False, Touch_changed = True,
             Touch_points = 0, point0_x = 63, point0_y = 23\<rparr> s2 = Some (s3, e3) \<and>
      filter is_note_on e1 = [SetNoteOn 0 77 100] \<and>
      filter is_synth e2 = [] \<and>
      filter is_synth e3 = [SetNoteOff 0 77 0])"
proof -
  let ?p = "\<lparr>BtnA_isPressed = False, BtnC_isPressed = True, Touch_changed = True,
             Touch_points = 1, point0_x = 63, point0_y = 23\<rparr>"
  let ?h = "\<lparr>BtnA_isPressed = True, BtnC_isPressed = False, Touch_changed = False,
              Touch_points = 1, point0_x = 63, point0_y = 23\<rparr>"
  let ?l = "\<lparr>BtnA_isPressed = False, BtnC_isPressed = False, Touch_changed = True,
             Touch_points = 0, point0_x = 63, point0_y = 23\<rparr>"
  have hit: "getKeyAtPosition 63 23 = 3"
    by (simp add: getKeyAtPosition_def scanTines.simps getTineX_def getTineHeight_def
        TINE_START_X_val TINE_PITCH_val BRIDGE_Y_def TINE_WIDTH_def TINE_CENTER_HEIGHT_def
        TINE_EDGE_STEP_def Let_def)
  have h: "Touch_changed ?p" "Touch_points ?p > 0"
    "getKeyAtPosition (point0_x ?p) (point0_y ?p) = 3" "(0 :: int) \<le> 3"
    "\<not> key_pressed init1 ! nat 3"
    "\<forall>h \<in> set [?h]. Touch_points h > 0 \<and>
           (Touch_changed h \<longrightarrow> getKeyAtPosition (point0_x h) (point0_y h) = 3)"
    "Touch_points ?l = 0"
    using hit by (simp_all add: init1_def)
  from press_hold_release [OF inv1_init h] hit h(5) inv1_init show ?thesis
    by (simp add: tine_notes_def semitone_offset_def)
qed

text \<open>
  C3 (single active tine).  After any sequence of ticks from the initial state, at most
  one entry of \<open>key_pressed\<close> is set, and at no point of the emitted event sequence
  does the synthesiser (silent at the start) play more than one pitch.  When the next tick
  presses a tine \<open>P\<close> while another tine is active, the state and the complete event
  list of that tick are as follows.  The flag of the old tine is cleared and the flag of
  \<open>P\<close> set; \<open>P\<close> and its pitch become the active ones.  The events are, in this
  order: the display commands of the mode indicator (none of them a synthesiser command);
  the note-off for the stored pitch; the nine display commands that repaint the old tine
  in its resting colours \<open>COL_TINE\<close> and \<open>COL_TINE_EDGE\<close> with its note name in grey;
  the note-on for the new pitch; the nine display commands that paint \<open>P\<close> in the
  pressed colours \<open>COL_PRESSED\<close> and \<open>0xF700\<close> with its note name in black; the
  loop's delay.
\<close>

theorem single_active_tine:
  "\<exists>s evs.
     run1 inps init1 = Some (s, evs) \<and>
     length (filter (\<lambda>b. b) (key_pressed s)) \<le> 1 \<and>
     monophonic evs [] \<and>
     (Touch_changed inp \<and> Touch_points inp > 0 \<and>
      getKeyAtPosition (point0_x inp) (point0_y inp) = P \<and> 0 \<le> P \<and>
      \<not> key_pressed s ! nat P \<and>
      0 \<le> sint (active_tine s) \<and> sint (active_tine s) \<noteq> P \<longrightarrow>
      filter is_synth (snd (drawModeIndicator (semitone_offset inp) s)) = [] \<and>
      loop1 inp s =
        Some (s\<lparr>key_pressed := (key_pressed s)[nat (sint (active_tine s)) := False, nat P := True],
                active_tine := word_of_int P,
                active_note_pitch := tine_notes ! nat P + semitone_offset inp,
                prev_offset := semitone_offset inp\<rparr>,
              snd (drawModeIndicator (semitone_offset inp) s) @
              SetNoteOff 0 (active_note_pitch s) 0 #
              [Lcd (FillRect (uint (getTineX (active_tine s))) (uint BRIDGE_Y) (uint TINE_WIDTH)
                      (uint (getTineHeight (active_tine s))) (Rgb (ucast COL_TINE))),
               Lcd (DrawFastVLine (uint (getTineX (active_tine s))) (uint BRIDGE_Y)
                      (uint (getTineHeight (active_tine s))) (Rgb (ucast COL_TINE_EDGE))),
               Lcd (DrawFastVLine (uint (getTineX (active_tine s)) + uint TINE_WIDTH - 1)
                      (uint BRIDGE_Y) (uint (getTineHeight (active_tine s)))
                      (Rgb (ucast COL_TINE_EDGE))),
               Lcd (FillRoundRect (uint (getTineX (active_tine s)))
                      (uint BRIDGE_Y + uint (getTineHeight (active_tine s)) - 6)
                      (uint TINE_WIDTH) 6 3 (Rgb (ucast COL_TINE))),
               Lcd (DrawRoundRect (uint (getTineX (active_tine s)))
                      (uint BRIDGE_Y + uint (getTineHeight (active_tine s)) - 6)
                      (uint TINE_WIDTH) 6 3 (Rgb (ucast COL_TINE_EDGE))),
               Lcd (SetTextSize 1),
               Lcd (SetTextColor (Rgb 0x4208)),
               Lcd (SetCursor (uint (getTineX (active_tine s)) + 2)
                      (uint BRIDGE_Y + uint (getTineHeight (active_tine s)) - 14)),
               Lcd (Print (note_names ! unat (tine_notes ! unat (active_tine s) mod 12)))] @
              SetNoteOn 0 (tine_notes ! nat P + semitone_offset inp) 100 #
              [Lcd (FillRect (uint (getTineX (word_of_int P))) (uint BRIDGE_Y) (uint TINE_WIDTH)
                      (uint (getTineHeight (word_of_int P))) (Rgb (ucast COL_PRESSED))),
               Lcd (DrawFastVLine (uint (getTineX (word_of_int P))) (uint BRIDGE_Y)
                      (uint (getTineHeight (word_of_int P))) (Rgb 0xF700)),
               Lcd (DrawFastVLine (uint (getTineX (word_of_int P)) + uint TINE_WIDTH - 1)
                      (uint BRIDGE_Y) (uint (getTineHeight (word_of_int P))) (Rgb 0xF700)),
               Lcd (FillRoundRect (uint (getTineX (word_of_int P)))
                      (uint BRIDGE_Y + uint (getTineHeight (word_of_int P)) - 6)
                      (uint TINE_WIDTH) 6 3 (Rgb (ucast COL_PRESSED))),
               Lcd (DrawRoundRect (uint (getTineX (word_of_int P)))
                      (uint BRIDGE_Y + uint (getTineHeight (word_of_int P)) - 6)
                      (uint TINE_WIDTH) 6 3 (Rgb 0xF700)),
               Lcd (SetTextSize 1),
               Lcd (SetTextColor BLACK),
               Lcd (SetCursor (uint (getTineX (word_of_int P)) + 2)
                      (uint BRIDGE_Y + uint (getTineHeight (word_of_int P)) - 14)),
               Lcd (Print (note_names ! unat (tine_notes ! nat P mod 12)))] @
              [Delay 10]))"
proof -
  from run1_step [OF inv1_init, of inps]
  obtain s evs where r: "run1 inps init1 = Some (s, evs)" "inv1 s"
    "monophonic evs (sounding1 init1)"
    by blast
  have "sounding1 init1 = []" by (simp add: sounding1_def init1_def)
  with r(3) have m: "monophonic evs []" by simp
  have c: "length (filter (\<lambda>b. b) (key_pressed s)) \<le> 1"
    using r(2) by (auto simp: inv1_def dest: pressed_only_at_count)
  from r(2) have len: "length (key_pressed s) = 17" and a: "sint (active_tine s) \<le> 16"
    by (simp_all add: inv1_def)
  let ?s1 = "s\<lparr>prev_offset := semitone_offset inp\<rparr>"
  let ?Q = "active_tine s"
  let ?W = "word_of_int P :: 8 word"
  let ?old = "[Lcd (FillRect (uint (getTineX ?Q)) (uint BRIDGE_Y) (uint TINE_WIDTH)
                      (uint (getTineHeight ?Q)) (Rgb (ucast COL_TINE))),
               Lcd (DrawFastVLine (uint (getTineX ?Q)) (uint BRIDGE_Y)
                      (uint (getTineHeight ?Q)) (Rgb (ucast COL_TINE_EDGE))),
               Lcd (DrawFastVLine (uint (getTineX ?Q) + uint TINE_WIDTH - 1)
                      (uint BRIDGE_Y) (uint (getTineHeight ?Q)) (Rgb (ucast COL_TINE_EDGE))),
               Lcd (FillRoundRect (uint (getTineX ?Q))
                      (uint BRIDGE_Y + uint (getTineHeight ?Q) - 6)
                      (uint TINE_WIDTH) 6 3 (Rgb (ucast COL_TINE))),
               Lcd (DrawRoundRect (uint (getTineX ?Q))
                      (uint BRIDGE_Y + uint (getTineHeight ?Q) - 6)
                      (uint TINE_WIDTH) 6 3 (Rgb (ucast COL_TINE_EDGE))),
               Lcd (SetTextSize 1),
               Lcd (SetTextColor (Rgb 0x4208)),
               Lcd (SetCursor (uint (getTineX ?Q) + 2)
                      (uint BRIDGE_Y + uint (getTineHeight ?Q) - 14)),
               Lcd (Print (note_names ! unat (tine_notes ! unat ?Q mod 12)))]"
  let ?new = "[Lcd (FillRect (uint (getTineX ?W)) (uint BRIDGE_Y) (uint TINE_WIDTH)
                      (uint (getTineHeight ?W)) (Rgb (ucast COL_PRESSED))),
               Lcd (DrawFastVLine (uint (getTineX ?W)) (uint BRIDGE_Y)
                      (uint (getTineHeight ?W)) (Rgb 0xF700)),
               Lcd (DrawFastVLine (uint (getTineX ?W) + uint TINE_WIDTH - 1)
                      (uint BRIDGE_Y) (uint (getTineHeight ?W)) (Rgb 0xF700)),
               Lcd (FillRoundRect (uint (getTineX ?W))
                      (uint BRIDGE_Y + uint (getTineHeight ?W) - 6)
                      (uint TINE_WIDTH) 6 3 (Rgb (ucast COL_PRESSED))),
               Lcd (DrawRoundRect (uint (getTineX ?W))
                      (uint BRIDGE_Y + uint (getTineHeight ?W) - 6)
                      (uint TINE_WIDTH) 6 3 (Rgb 0xF700)),
               Lcd (SetTextSize 1),
               Lcd (SetTextColor BLACK),
               Lcd (SetCursor (uint (getTineX ?W) + 2)
                      (uint BRIDGE_Y + uint (getTineHeight ?W) - 14)),
               Lcd (Print (note_names ! unat (tine_notes ! nat P mod 12)))]"
  have "filter is_synth (snd (drawModeIndicator (semitone_offset inp) s)) = [] \<and>
        loop1 inp s =
          Some (s\<lparr>key_pressed := (key_pressed s)[nat (sint ?Q) := False, nat P := True],
                  active_tine := ?W,
                  active_note_pitch := tine_notes ! nat P + semitone_offset inp,
                  prev_offset := semitone_offset inp\<rparr>,
                snd (drawModeIndicator (semitone_offset inp) s) @
                SetNoteOff 0 (active_note_pitch s) 0 # ?old @
                SetNoteOn 0 (tine_notes ! nat P + semitone_offset inp) 100 # ?new @ [Delay 10])"
    if h: "Touch_changed inp" "Touch_points inp > 0"
      "getKeyAtPosition (point0_x inp) (point0_y inp) = P" "0 \<le> P"
      "\<not> key_pressed s ! nat P" "0 \<le> sint ?Q" "sint ?Q \<noteq> P"
  proof -
    obtain ev where md: "drawModeIndicator (semitone_offset inp) s = (?s1, ev)"
      "filter is_synth ev = []"
      using drawModeIndicator_eq by blast
    have P16: "P \<le> 16"
      using getKeyAtPosition_range [of "point0_x inp" "point0_y inp"] h(3) by simp
    have W16: "?W \<le> 16" using h(4) P16 by (rule word8_of_int_le16)
    have uW: "unat ?W = nat P"
      using h(4) P16 by (simp add: unat_eq_nat_uint uint_word_of_int_eq take_bit_int_eq_self)
    have Q16: "?Q \<le> 16" using h(6) a sint8_small_le16 by blast
    have dn: "drawTine ?W True = Some ?new"
      using tine_name_lookup [OF W16] uW by (simp add: drawTine_def Let_def)
    have dold: "drawTine ?Q False = Some ?old"
      using tine_name_lookup [OF Q16] by (simp add: drawTine_def Let_def)
    have pre: "length (key_pressed ?s1) = 17" "0 \<le> sint (active_tine ?s1)"
      "sint (active_tine ?s1) \<le> 16" "sint (active_tine ?s1) \<noteq> P"
      "\<not> key_pressed ?s1 ! nat P"
      using len a h by simp_all
    from loop1_touch_switch [OF pre(1-4) h(4) P16 pre(5), of "semitone_offset inp"]
    have t: "loop1_touch P (semitone_offset inp) ?s1 =
        Some (?s1\<lparr>key_pressed := (key_pressed s)[nat (sint ?Q) := False, nat P := True],
                  active_tine := ?W,
                  active_note_pitch := tine_notes ! nat P + semitone_offset inp\<rparr>,
              SetNoteOff 0 (active_note_pitch s) 0 # ?old @
              SetNoteOn 0 (tine_notes ! nat P + semitone_offset inp) 100 # ?new)"
      using dn dold by auto
    have pts: "Touch_points inp \<noteq> 0" using h(2) by (simp add: word_greater_zero_iff)
    have "loop1 inp s =
          Some (s\<lparr>key_pressed := (key_pressed s)[nat (sint ?Q) := False, nat P := True],
                  active_tine := ?W,
                  active_note_pitch := tine_notes ! nat P + semitone_offset inp,
                  prev_offset := semitone_offset inp\<rparr>,
                ev @ SetNoteOff 0 (active_note_pitch s) 0 # ?old @
                SetNoteOn 0 (tine_notes ! nat P + semitone_offset inp) 100 # ?new @ [Delay 10])"
      using md(1) t h(1,3) pts by (simp add: loop1_def Let_def word_greater_zero_iff)
    with md show ?thesis by simp
  qed
  with r(1) c m show ?thesis by blast
qed

theorem single_active_tine_witness:
  "\<exists>s evs.
     run1 [\<lparr>BtnA_isPressed = False, BtnC_isPressed = False, Touch_changed = True,
             Touch_points = 1, point0_x = 63, point0_y = 23\<rparr>] init1 = Some (s, evs) \<and>
     s = \<lparr>key_pressed = [False, False, False, True, False, False, False, False, False,
                           False, False, False, False, False, False, False, False],
           active_note_pitch = 76, active_tine = 3, prev_offset = 0\<rparr> \<and>
     length (filter (\<lambda>b. b) (key_pressed s)) \<le> 1 \<and>
     monophonic evs [] \<and>
     getKeyAtPosition 99 23 = 5 \<and> \<not> key_pressed s ! nat 5 \<and>
     0 \<le> sint (active_tine s) \<and> sint (active_tine s) \<noteq> 5 \<and>
     loop1 \<lparr>BtnA_isPressed = False, BtnC_isPressed = False, Touch_changed = True,
            Touch_points = 1, point0_x = 99, point0_y = 23\<rparr> s =
       Some (\<lparr>key_pressed = [False, False, False, False, False, True, False, False, False,
                                False, False, False, False, False, False, False, False],
                active_note_pitch = 69, active_tine = 5, prev_offset = 0\<rparr>,
             [SetNoteOff 0 76 0,
              Lcd (FillRect 62 22 16 110 (Rgb 0xC618)),
              Lcd (DrawFastVLine 62 22 110 (Rgb 0x9CD3)),
              Lcd (DrawFastVLine 77 22 110 (Rgb 0x9CD3)),
              Lcd (FillRoundRect 62 126 16 6 3 (Rgb 0xC618)),
              Lcd (DrawRoundRect 62 126 16 6 3 (Rgb 0x9CD3)),
              Lcd (SetTextSize 1),
              Lcd (SetTextColor (Rgb 0x4208)),
              Lcd (SetCursor 64 118),
              Lcd (Print ''E''),
              SetNoteOn 0 69 100,
              Lcd (FillRect 98 22 16 126 (Rgb 0xFFE0)),
              Lcd (DrawFastVLine 98 22 126 (Rgb 0xF700)),
              Lcd (DrawFastVLine 113 22 126 (Rgb 0xF700)),
              Lcd (FillRoundRect 98 142 16 6 3 (Rgb 0xFFE0)),
              Lcd (DrawRoundRect 98 142 16 6 3 (Rgb 0xF700)),
              Lcd (SetTextSize 1),
              Lcd (SetTextColor BLACK),
              Lcd (SetCursor 100 134),
              Lcd (Print ''A''),
              Delay 10])"
proof -
  let ?i1 = "\<lparr>BtnA_isPressed = False, BtnC_isPressed = False, Touch_changed = True,
             Touch_points = 1, point0_x = 63, point0_y = 23\<rparr>"
  let ?i2 = "\<lparr>BtnA_isPressed = False, BtnC_isPressed = False, Touch_changed = True,
                Touch_points = 1, point0_x = 99, point0_y = 23\<rparr>"
  let ?S = "\<lparr>key_pressed = [False, False, False, True, False, False, False, False, False,
                           False, False, False, False, False, False, False, False],
           active_note_pitch = 76, active_tine = 3, prev_offset = 0\<rparr>"
  have hit: "getKeyAtPosition 63 23 = 3" "getKeyAtPosition 99 23 = 5"
    by (simp_all add: getKeyAtPosition_def scanTines.simps getTineX_def getTineHeight_def
        TINE_START_X_val TINE_PITCH_val BRIDGE_Y_def TINE_WIDTH_def TINE_CENTER_HEIGHT_def
        TINE_EDGE_STEP_def Let_def)
  have st: "map_option fst (run1 [?i1] init1) = Some ?S"
    by code_simp
  from single_active_tine [of "[?i1]" ?i2 5]
  obtain s evs where r: "run1 [?i1] init1 = Some (s, evs)"
    "length (filter (\<lambda>b. b) (key_pressed s)) \<le> 1" "monophonic evs []"
    and imp: "Touch_changed ?i2 \<and> Touch_points ?i2 > 0 \<and>
      getKeyAtPosition (point0_x ?i2) (point0_y ?i2) = 5 \<and> 0 \<le> (5 :: int) \<and>
      \<not> key_pressed s ! nat 5 \<and>
      0 \<le> sint (active_tine s) \<and> sint (active_tine s) \<noteq> 5 \<Longrightarrow>
      loop1 ?i2 s =
        Some (s\<lparr>key_pressed := (key_pressed s)[nat (sint (active_tine s)) := False, nat 5 := True],
                active_tine := word_of_int 5,
                active_note_pitch := tine_notes ! nat 5 + semitone_offset ?i2,
                prev_offset := semitone_offset ?i2\<rparr>,
              snd (drawModeIndicator (semitone_offset ?i2) s) @
              SetNoteOff 0 (active_note_pitch s) 0 #
              [Lcd (FillRect (uint (getTineX (active_tine s))) (uint BRIDGE_Y) (uint TINE_WIDTH)
                      (uint (getTineHeight (active_tine s))) (Rgb (ucast COL_TINE))),
               Lcd (DrawFastVLine (uint (getTineX (active_tine s))) (uint BRIDGE_Y)
                      (uint (getTineHeight (active_tine s))) (Rgb (ucast COL_TINE_EDGE))),
               Lcd (DrawFastVLine (uint (getTineX (active_tine s)) + uint TINE_WIDTH - 1)
                      (uint BRIDGE_Y) (uint (getTineHeight (active_tine s)))
                      (Rgb (ucast COL_TINE_EDGE))),
               Lcd (FillRoundRect (uint (getTineX (active_tine s)))
                      (uint BRIDGE_Y + uint (getTineHeight (active_tine s)) - 6)
                      (uint TINE_WIDTH) 6 3 (Rgb (ucast COL_TINE))),
               Lcd (DrawRoundRect (uint (getTineX (active_tine s)))
                      (uint BRIDGE_Y + uint (getTineHeight (active_tine s)) - 6)
                      (uint TINE_WIDTH) 6 3 (Rgb (ucast COL_TINE_EDGE))),
               Lcd (SetTextSize 1),
               Lcd (SetTextColor (Rgb 0x4208)),
               Lcd (SetCursor (uint (getTineX (active_tine s)) + 2)
                      (uint BRIDGE_Y + uint (getTineHeight (active_tine s)) - 14)),
               Lcd (Print (note_names ! unat (tine_notes ! unat (active_tine s) mod 12)))] @
              SetNoteOn 0 (tine_notes ! nat 5 + semitone_offset ?i2) 100 #
              [Lcd (FillRect (uint (getTineX (word_of_int 5))) (uint BRIDGE_Y) (uint TINE_WIDTH)
                      (uint (getTineHeight (word_of_int 5))) (Rgb (ucast COL_PRESSED))),
               Lcd (DrawFastVLine (uint (getTineX (word_of_int 5))) (uint BRIDGE_Y)
                      (uint (getTineHeight (word_of_int 5))) (Rgb 0xF700)),
               Lcd (DrawFastVLine (uint (getTineX (word_of_int 5)) + uint TINE_WIDTH - 1)
                      (uint BRIDGE_Y) (uint (getTineHeight (word_of_int 5))) (Rgb 0xF700)),
               Lcd (FillRoundRect (uint (getTineX (word_of_int 5)))
                      (uint BRIDGE_Y + uint (getTineHeight (word_of_int 5)) - 6)
                      (uint TINE_WIDTH) 6 3 (Rgb (ucast COL_PRESSED))),
               Lcd (DrawRoundRect (uint (getTineX (word_of_int 5)))
                      (uint BRIDGE_Y + uint (getTineHeight (word_of_int 5)) - 6)
                      (uint TINE_WIDTH) 6 3 (Rgb 0xF700)),
               Lcd (SetTextSize 1),
               Lcd (SetTextColor BLACK),
               Lcd (SetCursor (uint (getTineX (word_of_int 5)) + 2)
                      (uint BRIDGE_Y + uint (getTineHeight (word_of_int 5)) - 14)),
               Lcd (Print (note_names ! unat (tine_notes ! nat 5 mod 12)))] @
              [Delay 10])"
    by blast
  from r(1) st have s: "s = ?S" by simp
  have pre: "Touch_changed ?i2 \<and> Touch_points ?i2 > 0 \<and>
      getKeyAtPosition (point0_x ?i2) (point0_y ?i2) = 5 \<and> 0 \<le> (5 :: int) \<and>
      \<not> key_pressed s ! nat 5 \<and>
      0 \<le> sint (active_tine s) \<and> sint (active_tine s) \<noteq> 5"
    using hit(2) by (simp add: s)
  from imp [OF pre] have l: "loop1 ?i2 ?S =
       Some (\<lparr>key_pressed = [False, False, False, False, False, True, False, False, False,
                                False, False, False, False, False, False, False, False],
                active_note_pitch = 69, active_tine = 5, prev_offset = 0\<rparr>,
             [SetNoteOff 0 76 0,
              Lcd (FillRect 62 22 16 110 (Rgb 0xC618)),
              Lcd (DrawFastVLine 62 22 110 (Rgb 0x9CD3)),
              Lcd (DrawFastVLine 77 22 110 (Rgb 0x9CD3)),
              Lcd (FillRoundRect 62 126 16 6 3 (Rgb 0xC618)),
              Lcd (DrawRoundRect 62 126 16 6 3 (Rgb 0x9CD3)),
              Lcd (SetTextSize 1),
              Lcd (SetTextColor (Rgb 0x4208)),
              Lcd (SetCursor 64 118),
              Lcd (Print ''E''),
              SetNoteOn 0 69 100,
              Lcd (FillRect 98 22 16 126 (Rgb 0xFFE0)),
              Lcd (DrawFastVLine 98 22 126 (Rgb 0xF700)),
              Lcd (DrawFastVLine 113 22 126 (Rgb 0xF700)),
              Lcd (FillRoundRect 98 142 16 6 3 (Rgb 0xFFE0)),
              Lcd (DrawRoundRect 98 142 16 6 3 (Rgb 0xF700)),
              Lcd (SetTextSize 1),
              Lcd (SetTextColor BLACK),
              Lcd (SetCursor 100 134),
              Lcd (Print ''A''),
              Delay 10])"
    unfolding s
    by (simp add: semitone_offset_def drawModeIndicator_def tine_notes_def note_names_def
        getTineX_def getTineHeight_def TINE_START_X_val TINE_PITCH_val BRIDGE_Y_def
        TINE_WIDTH_def TINE_CENTER_HEIGHT_def TINE_EDGE_STEP_def COL_TINE_def COL_TINE_EDGE_def
        COL_PRESSED_def Let_def)
  have run: "drawTine 3 False =
      Some [Lcd (FillRect 62 22 16 110 (Rgb 0xC618)),
            Lcd (DrawFastVLine 62 22 110 (Rgb 0x9CD3)),
            Lcd (DrawFastVLine 77 22 110 (Rgb 0x9CD3)),
            Lcd (FillRoundRect 62 126 16 6 3 (Rgb 0xC618)),
            Lcd (DrawRoundRect 62 126 16 6 3 (Rgb 0x9CD3)),
            Lcd (SetTextSize 1),
            Lcd (SetTextColor (Rgb 0x4208)),
            Lcd (SetCursor 64 118),
            Lcd (Print ''E'')]"
    by code_simp
  from r pre l s hit(2) run show ?thesis by simp
qed

section \<open>Variant 2: slide, pluck and release\<close>

text \<open>
  In this section a tick touches bar \<open>B\<close> when the screen is pressed and the loop's own
  test (\<open>on_a_bar\<close>) accepts the point with bar index \<open>touched_bar inp = B\<close>.
\<close>

text \<open>
  C2 (slide over 3, 5, 7 and release).  From any state whose highlighted bar is not 3, a
  pressed slide that stays one or more ticks on bar 3, then on bar 5, then on bar 7,
  followed by a release tick and any number of further ticks without touch, sends to the
  synthesiser exactly: note-on and note-off for the pitch of bar 3, the same pair for bar 5
  and for bar 7, and then one note-on for the pitch of bar 7.  No note-off follows that
  last note-on.
\<close>

theorem slide_3_5_7:
  assumes "length notes = 17" and "selectedBar s \<noteq> 3"
    and "t3 \<noteq> []" and "\<forall>i \<in> set t3. ispressed i \<and> on_a_bar i \<and> touched_bar i = 3"
    and "t5 \<noteq> []" and "\<forall>i \<in> set t5. ispressed i \<and> on_a_bar i \<and> touched_bar i = 5"
    and "t7 \<noteq> []" and "\<forall>i \<in> set t7. ispressed i \<and> on_a_bar i \<and> touched_bar i = 7"
    and "\<not> ispressed rel" and "\<forall>i \<in> set idle. \<not> ispressed i"
  shows "\<exists>s' evs.
           run2 notes (t3 @ t5 @ t7 @ rel # idle) s = Some (s', evs) \<and>
           filter is_synth evs =
             [SetNoteOn 0 (notes ! 3) 127, SetNoteOff 0 (notes ! 3) 127,
              SetNoteOn 0 (notes ! 5) 127, SetNoteOff 0 (notes ! 5) 127,
              SetNoteOn 0 (notes ! 7) 127, SetNoteOff 0 (notes ! 7) 127,
              SetNoteOn 0 (notes ! 7) 127]"
proof -
  let ?s3 = "s\<lparr>selectedBar := 3, lastPressedBar := 3, wasPressed := True\<rparr>"
  let ?s5 = "s\<lparr>selectedBar := 5, lastPressedBar := 5, wasPressed := True\<rparr>"
  let ?s7 = "s\<lparr>selectedBar := 7, lastPressedBar := 7, wasPressed := True\<rparr>"
  let ?s8 = "s\<lparr>selectedBar := - 1, lastPressedBar := - 1, wasPressed := False\<rparr>"
  from run2_on_bar [OF assms(3,1,4), of s] assms(2) obtain e3 where
    3: "run2 notes t3 s = Some (?s3, e3)"
    "filter is_synth e3 = [SetNoteOn 0 (notes ! 3) 127, SetNoteOff 0 (notes ! 3) 127]"
    by auto
  from run2_on_bar [OF assms(5,1,6), of ?s3] obtain e5 where
    5: "run2 notes t5 ?s3 = Some (?s5, e5)"
    "filter is_synth e5 = [SetNoteOn 0 (notes ! 5) 127, SetNoteOff 0 (notes ! 5) 127]"
    by auto
  from run2_on_bar [OF assms(7,1,8), of ?s5] obtain e7 where
    7: "run2 notes t7 ?s5 = Some (?s7, e7)"
    "filter is_synth e7 = [SetNoteOn 0 (notes ! 7) 127, SetNoteOff 0 (notes ! 7) 127]"
    by auto
  have "inv2 ?s7" by (simp add: inv2_def barCount_def)
  from loop2_released [OF assms(9) this assms(1)] obtain e8 where
    8: "loop2 notes rel ?s7 = Some (?s8, e8)"
    "filter is_synth e8 = [SetNoteOn 0 (notes ! 7) 127]"
    by auto
  have 9: "run2 notes idle ?s8 = Some (?s8, [])"
    using assms(10) by (intro run2_idle) simp_all
  from 8 9 have r: "run2 notes (rel # idle) ?s7 = Some (?s8, e8)" by simp
  have "run2 notes (t3 @ t5 @ t7 @ rel # idle) s = Some (?s8, e3 @ e5 @ e7 @ e8)"
    using 3(1) 5(1) 7(1) r by (simp add: run2_append)
  moreover have "filter is_synth (e3 @ e5 @ e7 @ e8) =
             [SetNoteOn 0 (notes ! 3) 127, SetNoteOff 0 (notes ! 3) 127,
              SetNoteOn 0 (notes ! 5) 127, SetNoteOff 0 (notes ! 5) 127,
              SetNoteOn 0 (notes ! 7) 127, SetNoteOff 0 (notes ! 7) 127,
              SetNoteOn 0 (notes ! 7) 127]"
    using 3(2) 5(2) 7(2) 8(2) by simp
  ultimately show ?thesis by blast
qed

theorem slide_3_5_7_witness:
  "\<exists>s' evs.
     run2 [74, 71, 67, 64, 60, 57, 53, 50, 36, 52, 55, 59, 62, 65, 69, 72, 76]
       ([\<lparr>ispressed = True, press_x = 60, press_y = 50\<rparr>,
         \<lparr>ispressed = True, press_x = 61, press_y = 50\<rparr>] @
        [\<lparr>ispressed = True, press_x = 95, press_y = 50\<rparr>] @
        [\<lparr>ispressed = True, press_x = 130, press_y = 50\<rparr>] @
        \<lparr>ispressed = False, press_x = - 1, press_y = - 1\<rparr> #
        [\<lparr>ispressed = False, press_x = - 1, press_y = - 1\<rparr>]) init2 = Some (s', evs) \<and>
     filter is_synth evs =
       [SetNoteOn 0 64 127, SetNoteOff 0 64 127, SetNoteOn 0 57 127, SetNoteOff 0 57 127,
        SetNoteOn 0 50 127, SetNoteOff 0 50 127, SetNoteOn 0 50 127]"
proof -
  let ?n = "[74, 71, 67, 64, 60, 57, 53, 50, 36, 52, 55, 59, 62, 65, 69, 72, 76] :: 8 word list"
  let ?t3 = "[\<lparr>ispressed = True, press_x = 60, press_y = 50\<rparr>,
         \<lparr>ispressed = True, press_x = 61, press_y = 50\<rparr>]"
  let ?t5 = "[\<lparr>ispressed = True, press_x = 95, press_y = 50\<rparr>]"
  let ?t7 = "[\<lparr>ispressed = True, press_x = 130, press_y = 50\<rparr>]"
  let ?rel = "\<lparr>ispressed = False, press_x = - 1, press_y = - 1\<rparr>"
  have h: "length ?n = 17" "selectedBar init2 \<noteq> 3"
    "?t3 \<noteq> []" "\<forall>i \<in> set ?t3. ispressed i \<and> on_a_bar i \<and> touched_bar i = 3"
    "?t5 \<noteq> []" "\<forall>i \<in> set ?t5. ispressed i \<and> on_a_bar i \<and> touched_bar i = 5"
    "?t7 \<noteq> []" "\<forall>i \<in> set ?t7. ispressed i \<and> on_a_bar i \<and> touched_bar i = 7"
    "\<not> ispressed ?rel" "\<forall>i \<in> set [?rel]. \<not> ispressed i"
    by (simp_all add: init2_def on_a_bar_def touched_bar_def barWidth_val barCount_def barY_def
        getBarHeight_def centerIndex_val maxHeight_def stepHeight_def Let_def)
  from slide_3_5_7 [OF h] show ?thesis by simp
qed



section \<open>Properties of both variants\<close>

text \<open>
  C7 (release idempotence).  Two consecutive ticks without touch: in variant 1 (no point
  reported on either tick, from a state satisfying \<open>inv1\<close>) and in variant 2 (not pressed
  on either tick, from a state satisfying \<open>inv2\<close>) the two ticks together emit at most
  one note-off, and the second tick sends nothing to the synthesiser.
\<close>

theorem release_idempotent:
  assumes "inv1 s" and "Touch_points a = 0" and "Touch_points b = 0"
    and "inv2 t" and "length notes = 17" and "\<not> ispressed a2" and "\<not> ispressed b2"
  shows "(\<exists>s1 e1 s2 e2.
            loop1 a s = Some (s1, e1) \<and> loop1 b s1 = Some (s2, e2) \<and>
            length (filter is_note_off (e1 @ e2)) \<le> 1 \<and> filter is_synth e2 = []) \<and>
         (\<exists>t1 e1 t2 e2.
            loop2 notes a2 t = Some (t1, e1) \<and> loop2 notes b2 t1 = Some (t2, e2) \<and>
            length (filter is_note_off (e1 @ e2)) \<le> 1 \<and> filter is_synth e2 = [])"
proof -
  from assms(1) have len: "length (key_pressed s) = 17"
    and cnt: "length (filter (\<lambda>b. b) (key_pressed s)) \<le> 1"
    by (auto simp: inv1_def dest: pressed_only_at_count)
  let ?s1 = "s\<lparr>key_pressed := replicate 17 False, active_tine := - 1,
                     active_note_pitch := 0, prev_offset := semitone_offset a\<rparr>"
  from loop1_release [OF len assms(2)] obtain e1 where
    1: "loop1 a s = Some (?s1, e1)"
    "filter is_synth e1 =
       map (\<lambda>_. SetNoteOff 0 (active_note_pitch s) 0) (filter (\<lambda>b. b) (key_pressed s))"
    by blast
  have len1: "length (key_pressed ?s1) = 17" by simp
  from loop1_release [OF len1 assms(3)] obtain s2 e2 where
    2: "loop1 b ?s1 = Some (s2, e2)"
    "filter is_synth e2 =
       map (\<lambda>_. SetNoteOff 0 (active_note_pitch ?s1) 0) (filter (\<lambda>b. b) (key_pressed ?s1))"
    by blast
  from 2(2) have e2: "filter is_synth e2 = []" by simp
  have "length (filter is_note_off (filter is_synth e1)) \<le> 1"
    using cnt unfolding 1(2) by (simp add: filter_map comp_def)
  then have "length (filter is_note_off (e1 @ e2)) \<le> 1"
    using note_of_synth [of e1] note_of_synth [of e2] e2 by simp
  with 1(1) 2(1) e2 have A: "\<exists>s1 e1 s2 e2.
            loop1 a s = Some (s1, e1) \<and> loop1 b s1 = Some (s2, e2) \<and>
            length (filter is_note_off (e1 @ e2)) \<le> 1 \<and> filter is_synth e2 = []"
    by blast
  from loop2_released [OF assms(6,4,5)] obtain t1 f1 where
    3: "loop2 notes a2 t = Some (t1, f1)"
    "t1 = (if wasPressed t \<and> lastPressedBar t \<noteq> - 1
                   then t\<lparr>selectedBar := - 1, lastPressedBar := - 1, wasPressed := False\<rparr>
                   else t\<lparr>wasPressed := False\<rparr>)"
    "filter is_synth f1 =
             (if wasPressed t \<and> lastPressedBar t \<noteq> - 1
              then [SetNoteOn 0 (notes ! nat (lastPressedBar t)) 127] else [])"
    by blast
  from 3(2) have "\<not> wasPressed t1" by (simp split: if_splits)
  then have 4: "loop2 notes b2 t1 = Some (t1, [])"
    using assms(7) by (simp add: loop2_def Let_def)
  have "filter is_note_off (filter is_synth f1) = []" unfolding 3(3) by simp
  then have "length (filter is_note_off (f1 @ [])) \<le> 1"
    using note_of_synth [of f1] by simp
  with 3(1) 4 have B: "\<exists>t1 e1 t2 e2.
            loop2 notes a2 t = Some (t1, e1) \<and> loop2 notes b2 t1 = Some (t2, e2) \<and>
            length (filter is_note_off (e1 @ e2)) \<le> 1 \<and> filter is_synth e2 = []"
    by (intro exI [of _ t1] exI [of _ f1] exI [of _ "[]"]) simp
  from A B show ?thesis by blast
qed

theorem release_idempotent_witness:
  "inv1 \<lparr>key_pressed = [False, False, False, True, False, False, False, False, False,
                         False, False, False, False, False, False, False, False],
         active_note_pitch = 76, active_tine = 3, prev_offset = 0\<rparr> \<and>
   inv2 \<lparr>selectedBar = 7, lastPressedBar = 7, wasPressed = True\<rparr> \<and>
   (\<exists>s1 e1 s2 e2.
      loop1 \<lparr>BtnA_isPressed = False, BtnC_isPressed = False, Touch_changed = True,
             Touch_points = 0, point0_x = 63, point0_y = 23\<rparr>
        \<lparr>key_pressed = [False, False, False, True, False, False, False, False, False,
                         False, False, False, False, False, False, False, False],
         active_note_pitch = 76, active_tine = 3, prev_offset = 0\<rparr> = Some (s1, e1) \<and>
      loop1 \<lparr>BtnA_isPressed = False, BtnC_isPressed = False, Touch_changed = False,
             Touch_points = 0, point0_x = 63, point0_y = 23\<rparr> s1 = Some (s2, e2) \<and>
      length (filter is_note_off (e1 @ e2)) \<le> 1 \<and> filter is_synth e2 = []) \<and>
   (\<exists>t1 e1 t2 e2.
      loop2 [74, 71, 67, 64, 60, 57, 53, 50, 36, 52, 55, 59, 62, 65, 69, 72, 76]
        \<lparr>ispressed = False, press_x = - 1, press_y = - 1\<rparr>
        \<lparr>selectedBar = 7, lastPressedBar = 7, wasPressed = True\<rparr> = Some (t1, e1) \<and>
      loop2 [74, 71, 67, 64, 60, 57, 53, 50, 36, 52, 55, 59, 62, 65, 69, 72, 76]
        \<lparr>ispressed = False, press_x = - 1, press_y = - 1\<rparr> t1 = Some (t2, e2) \<and>
      length (filter is_note_off (e1 @ e2)) \<le> 1 \<and> filter is_synth e2 = [])"
proof -
  let ?s = "\<lparr>key_pressed = [False, False, False, True, False, False, False, False, False,
                         False, False, False, False, False, False, False, False],
         active_note_pitch = 76, active_tine = 3, prev_offset = 0\<rparr>"
  let ?a = "\<lparr>BtnA_isPressed = False, BtnC_isPressed = False, Touch_changed = True,
             Touch_points = 0, point0_x = 63, point0_y = 23\<rparr>"
  let ?b = "\<lparr>BtnA_isPressed = False, BtnC_isPressed = False, Touch_changed = False,
             Touch_points = 0, point0_x = 63, point0_y = 23\<rparr>"
  let ?t = "\<lparr>selectedBar = 7, lastPressedBar = 7, wasPressed = True\<rparr>"
  let ?r = "\<lparr>ispressed = False, press_x = - 1, press_y = - 1\<rparr>"
  let ?n = "[74, 71, 67, 64, 60, 57, 53, 50, 36, 52, 55, 59, 62, 65, 69, 72, 76] :: 8 word list"
  have h: "inv1 ?s" "Touch_points ?a = 0" "Touch_points ?b = 0" "inv2 ?t" "length ?n = 17"
    "\<not> ispressed ?r" "\<not> ispressed ?r"
    by (simp_all add: inv1_def pressed_only_at_def inv2_def barCount_def)
  from release_idempotent [OF h] h(1,4) show ?thesis by simp
qed

text \<open>
  C9 as stated does not hold: it says that a touch outside the tines resolves to no hit and
  causes no state change and no synthesiser command.  Two inputs of variant 2 show the
  contrary.  After a press on bar 5, a pressed point at x = 400 (beyond the 320-pixel
  screen, on no bar) changes \<open>selectedBar\<close> from 5 to -1; the sketch does this on
  purpose, both \<^verbatim>\<open>else\<close> branches of the pressed case clear the highlight.  From
  the initial state, a pressed point at x = -5, y = 50 (left of the screen) passes the
  loop's test, because C's division truncates -5 / 18 to 0: bar 0 is selected and plucked.
\<close>

theorem out_of_range_touch_counterexample:
  "\<not> on_a_bar \<lparr>ispressed = True, press_x = 400, press_y = 50\<rparr> \<and>
   map_option fst
     (run2 [74, 71, 67, 64, 60, 57, 53, 50, 36, 52, 55, 59, 62, 65, 69, 72, 76]
        [\<lparr>ispressed = True, press_x = 95, press_y = 50\<rparr>] init2) =
     Some \<lparr>selectedBar = 5, lastPressedBar = 5, wasPressed = True\<rparr> \<and>
   map_option fst
     (loop2 [74, 71, 67, 64, 60, 57, 53, 50, 36, 52, 55, 59, 62, 65, 69, 72, 76]
        \<lparr>ispressed = True, press_x = 400, press_y = 50\<rparr>
        \<lparr>selectedBar = 5, lastPressedBar = 5, wasPressed = True\<rparr>) =
     Some \<lparr>selectedBar = - 1, lastPressedBar = 5, wasPressed = True\<rparr> \<and>
   on_a_bar \<lparr>ispressed = True, press_x = - 5, press_y = 50\<rparr> \<and>
   map_option fst
     (loop2 [74, 71, 67, 64, 60, 57, 53, 50, 36, 52, 55, 59, 62, 65, 69, 72, 76]
        \<lparr>ispressed = True, press_x = - 5, press_y = 50\<rparr> init2) =
     Some \<lparr>selectedBar = 0, lastPressedBar = 0, wasPressed = True\<rparr> \<and>
   map_option (filter is_synth \<circ> snd)
     (loop2 [74, 71, 67, 64, 60, 57, 53, 50, 36, 52, 55, 59, 62, 65, 69, 72, 76]
        \<lparr>ispressed = True, press_x = - 5, press_y = 50\<rparr> init2) =
     Some [SetNoteOn 0 74 127, SetNoteOff 0 74 127]"
  by code_simp

text \<open>
  C9, amended (index safety and touches off the tines).  For every sequence of ticks from
  the initial state, neither variant ever reads or writes a per-tine array outside 0..16
  (the run returns \<open>Some\<close>), and the stored indices \<open>active_tine\<close>, \<open>selectedBar\<close> and
  \<open>lastPressedBar\<close> stay between -1 and 16; for variant 2 the pitch table is any table of
  17 entries.  A point right of or below the 320 x 240 screen, or above the tines, resolves
  to no hit in either variant, and so does a point with x at most -18 in variant 2 (nothing
  is said about x from -17 to -1 there).  A touch that resolves to no hit sends nothing to
  the synthesiser.  In variant 1 the tick changes only the mode indicator's remembered
  offset and emits only the mode indicator's display commands and the loop's delay.  In
  variant 2 the tick sets \<open>selectedBar\<close> to -1 and \<open>wasPressed\<close>, leaves
  \<open>lastPressedBar\<close> as it is, and emits nothing if no bar was highlighted, otherwise
  exactly the five display commands that repaint the highlighted bar in \<open>barColor\<close>.
\<close>

theorem guarded_indices:
  assumes "length notes = 17"
  shows "(\<exists>s evs.
            run1 inps1 init1 = Some (s, evs) \<and>
            - 1 \<le> sint (active_tine s) \<and> sint (active_tine s) \<le> 16 \<and>
            (DISPLAY_WIDTH \<le> x \<or> DISPLAY_HEIGHT \<le> y \<or> y < BRIDGE_Y \<longrightarrow>
               getKeyAtPosition x y = - 1) \<and>
            (Touch_points inp1 > 0 \<and> getKeyAtPosition (point0_x inp1) (point0_y inp1) = - 1 \<longrightarrow>
               filter is_synth (snd (drawModeIndicator (semitone_offset inp1) s)) = [] \<and>
               loop1 inp1 s =
                 Some (s\<lparr>prev_offset := semitone_offset inp1\<rparr>,
                       snd (drawModeIndicator (semitone_offset inp1) s) @ [Delay 10]))) \<and>
         (\<exists>t evs.
            run2 notes inps2 init2 = Some (t, evs) \<and>
            - 1 \<le> selectedBar t \<and> selectedBar t \<le> 16 \<and>
            - 1 \<le> lastPressedBar t \<and> lastPressedBar t \<le> 16 \<and>
            (320 \<le> press_x inp2 \<or> press_x inp2 \<le> - 18 \<or>
             240 \<le> press_y inp2 \<or> press_y inp2 < barY \<longrightarrow> \<not> on_a_bar inp2) \<and>
            (ispressed inp2 \<and> \<not> on_a_bar inp2 \<longrightarrow>
               loop2 notes inp2 t =
                 Some (t\<lparr>selectedBar := - 1, wasPressed := True\<rparr>,
                       if selectedBar t = - 1 then []
                       else [Lcd (FillRect (selectedBar t * barWidth) barY (barWidth - 1)
                                    (getBarHeight (selectedBar t)) barColor),
                             Lcd (SetTextColorBg TFT_BLACK barColor),
                             Lcd (SetTextSize 1),
                             Lcd (SetCursor
                                    (selectedBar t * barWidth + barWidth sdiv 2 -
                                     (int (length (noteNames ! nat (selectedBar t))) * 6) sdiv 2)
                                    (barY + getBarHeight (selectedBar t) - 60)),
                             Lcd (Print (noteNames ! nat (selectedBar t)))])))"
proof -
  from run1_step [OF inv1_init, of inps1]
  obtain s evs where r: "run1 inps1 init1 = Some (s, evs)" "inv1 s" by blast
  from r(2) have len: "length (key_pressed s) = 17"
    and a: "- 1 \<le> sint (active_tine s)" "sint (active_tine s) \<le> 16"
    by (simp_all add: inv1_def)
  have m: "DISPLAY_WIDTH \<le> x \<or> DISPLAY_HEIGHT \<le> y \<or> y < BRIDGE_Y \<longrightarrow>
               getKeyAtPosition x y = - 1"
    using off_screen_miss1 by blast
  let ?s1 = "s\<lparr>prev_offset := semitone_offset inp1\<rparr>"
  have "filter is_synth (snd (drawModeIndicator (semitone_offset inp1) s)) = [] \<and>
        loop1 inp1 s =
          Some (?s1, snd (drawModeIndicator (semitone_offset inp1) s) @ [Delay 10])"
    if h: "Touch_points inp1 > 0" "getKeyAtPosition (point0_x inp1) (point0_y inp1) = - 1"
  proof -
    obtain ev where md: "drawModeIndicator (semitone_offset inp1) s = (?s1, ev)"
      "filter is_synth ev = []"
      using drawModeIndicator_eq by blast
    have pts: "Touch_points inp1 \<noteq> 0" using h(1) by (simp add: word_greater_zero_iff)
    have "loop1_touch (- 1) (semitone_offset inp1) ?s1 = Some (?s1, [])"
      using len by (intro loop1_touch_idle) simp_all
    with md pts h(2) show ?thesis by (simp add: loop1_def Let_def)
  qed
  with r(1) a m have A: "\<exists>s evs.
            run1 inps1 init1 = Some (s, evs) \<and>
            - 1 \<le> sint (active_tine s) \<and> sint (active_tine s) \<le> 16 \<and>
            (DISPLAY_WIDTH \<le> x \<or> DISPLAY_HEIGHT \<le> y \<or> y < BRIDGE_Y \<longrightarrow>
               getKeyAtPosition x y = - 1) \<and>
            (Touch_points inp1 > 0 \<and> getKeyAtPosition (point0_x inp1) (point0_y inp1) = - 1 \<longrightarrow>
               filter is_synth (snd (drawModeIndicator (semitone_offset inp1) s)) = [] \<and>
               loop1 inp1 s =
                 Some (s\<lparr>prev_offset := semitone_offset inp1\<rparr>,
                       snd (drawModeIndicator (semitone_offset inp1) s) @ [Delay 10]))"
    by blast
  from run2_step [OF inv2_init assms, of inps2]
  obtain t0 tevs where q: "run2 notes inps2 init2 = Some (t0, tevs)" "inv2 t0" by blast
  from q(2) have b: "- 1 \<le> selectedBar t0" "selectedBar t0 \<le> 16"
    "- 1 \<le> lastPressedBar t0" "lastPressedBar t0 \<le> 16" "selectedBar t0 < barCount"
    by (simp_all add: inv2_def barCount_def)
  have m2: "320 \<le> press_x inp2 \<or> press_x inp2 \<le> - 18 \<or>
             240 \<le> press_y inp2 \<or> press_y inp2 < barY \<longrightarrow> \<not> on_a_bar inp2"
    using off_screen_miss2 left_of_screen_miss2 by blast
  let ?bar = "if selectedBar t0 = - 1 then []
                       else [Lcd (FillRect (selectedBar t0 * barWidth) barY (barWidth - 1)
                                    (getBarHeight (selectedBar t0)) barColor),
                             Lcd (SetTextColorBg TFT_BLACK barColor),
                             Lcd (SetTextSize 1),
                             Lcd (SetCursor
                                    (selectedBar t0 * barWidth + barWidth sdiv 2 -
                                     (int (length (noteNames ! nat (selectedBar t0))) * 6) sdiv 2)
                                    (barY + getBarHeight (selectedBar t0) - 60)),
                             Lcd (Print (noteNames ! nat (selectedBar t0)))]"
  have "loop2 notes inp2 t0 = Some (t0\<lparr>selectedBar := - 1, wasPressed := True\<rparr>, ?bar)"
    if h: "ispressed inp2" "\<not> on_a_bar inp2"
  proof -
    from loop2_pressed_off [OF h b(1,5), of "notes"] obtain es where
      e: "loop2 notes inp2 t0 = Some (t0\<lparr>selectedBar := - 1, wasPressed := True\<rparr>, es)"
      "if selectedBar t0 = - 1 then es = []
       else drawSingleBar (selectedBar t0) barColor = Some es"
      by blast
    show ?thesis
    proof (cases "selectedBar t0 = - 1")
      case True
      with e show ?thesis by simp
    next
      case False
      with b have "0 \<le> selectedBar t0" "selectedBar t0 < 17" by simp_all
      with e False show ?thesis
        by (simp add: drawSingleBar_def Let_def arr_get_def noteNames_length)
    qed
  qed
  with q(1) b(1-4) m2 have B: "\<exists>t evs.
            run2 notes inps2 init2 = Some (t, evs) \<and>
            - 1 \<le> selectedBar t \<and> selectedBar t \<le> 16 \<and>
            - 1 \<le> lastPressedBar t \<and> lastPressedBar t \<le> 16 \<and>
            (320 \<le> press_x inp2 \<or> press_x inp2 \<le> - 18 \<or>
             240 \<le> press_y inp2 \<or> press_y inp2 < barY \<longrightarrow> \<not> on_a_bar inp2) \<and>
            (ispressed inp2 \<and> \<not> on_a_bar inp2 \<longrightarrow>
               loop2 notes inp2 t =
                 Some (t\<lparr>selectedBar := - 1, wasPressed := True\<rparr>,
                       if selectedBar t = - 1 then []
                       else [Lcd (FillRect (selectedBar t * barWidth) barY (barWidth - 1)
                                    (getBarHeight (selectedBar t)) barColor),
                             Lcd (SetTextColorBg TFT_BLACK barColor),
                             Lcd (SetTextSize 1),
                             Lcd (SetCursor
                                    (selectedBar t * barWidth + barWidth sdiv 2 -
                                     (int (length (noteNames ! nat (selectedBar t))) * 6) sdiv 2)
                                    (barY + getBarHeight (selectedBar t) - 60)),
                             Lcd (Print (noteNames ! nat (selectedBar t)))]))"
    by (intro exI [of _ t0] exI [of _ tevs]) blast
  from A B show ?thesis by blast
qed

theorem guarded_indices_witness:
  "length ([74, 71, 67, 64, 60, 57, 53, 50, 36, 52, 55, 59, 62, 65, 69, 72, 76] :: 8 word list) = 17 \<and>
   (\<exists>s evs.
      run1 [\<lparr>BtnA_isPressed = False, BtnC_isPressed = False, Touch_changed = True,
              Touch_points = 1, point0_x = 63, point0_y = 23\<rparr>] init1 = Some (s, evs) \<and>
      s = \<lparr>key_pressed = [False, False, False, True, False, False, False, False, False,
                            False, False, False, False, False, False, False, False],
            active_note_pitch = 76, active_tine = 3, prev_offset = 0\<rparr> \<and>
      DISPLAY_WIDTH \<le> 400 \<and> getKeyAtPosition 400 23 = - 1 \<and>
      loop1 \<lparr>BtnA_isPressed = False, BtnC_isPressed = False, Touch_changed = True,
             Touch_points = 1, point0_x = 400, point0_y = 23\<rparr> s = Some (s, [Delay 10])) \<and>
   (\<exists>t evs.
      run2 [74, 71, 67, 64, 60, 57, 53, 50, 36, 52, 55, 59, 62, 65, 69, 72, 76]
        [\<lparr>ispressed = True, press_x = 95, press_y = 50\<rparr>] init2 = Some (t, evs) \<and>
      t = \<lparr>selectedBar = 5, lastPressedBar = 5, wasPressed = True\<rparr> \<and>
      ispressed \<lparr>ispressed = True, press_x = 400, press_y = 50\<rparr> \<and>
      \<not> on_a_bar \<lparr>ispressed = True, press_x = 400, press_y = 50\<rparr> \<and>
      loop2 [74, 71, 67, 64, 60, 57, 53, 50, 36, 52, 55, 59, 62, 65, 69, 72, 76]
        \<lparr>ispressed = True, press_x = 400, press_y = 50\<rparr> t =
        Some (\<lparr>selectedBar = - 1, lastPressedBar = 5, wasPressed = True\<rparr>,
              [Lcd (FillRect 90 20 17 182 TFT_WHITE),
               Lcd (SetTextColorBg TFT_BLACK TFT_WHITE),
               Lcd (SetTextSize 1),
               Lcd (SetCursor 93 142),
               Lcd (Print ''A3'')]))"
proof -
  let ?n = "[74, 71, 67, 64, 60, 57, 53, 50, 36, 52, 55, 59, 62, 65, 69, 72, 76] :: 8 word list"
  let ?i1 = "\<lparr>BtnA_isPressed = False, BtnC_isPressed = False, Touch_changed = True,
              Touch_points = 1, point0_x = 63, point0_y = 23\<rparr>"
  let ?o1 = "\<lparr>BtnA_isPressed = False, BtnC_isPressed = False, Touch_changed = True,
                Touch_points = 1, point0_x = 400, point0_y = 23\<rparr>"
  let ?i2 = "\<lparr>ispressed = True, press_x = 95, press_y = 50\<rparr>"
  let ?o2 = "\<lparr>ispressed = True, press_x = 400, press_y = 50\<rparr>"
  have n: "length ?n = 17" by simp
  have st1: "map_option fst (run1 [?i1] init1) =
      Some \<lparr>key_pressed = [False, False, False, True, False, False, False, False, False,
                            False, False, False, False, False, False, False, False],
            active_note_pitch = 76, active_tine = 3, prev_offset = 0\<rparr>"
    by code_simp
  have st2: "map_option fst (run2 ?n [?i2] init2) =
      Some \<lparr>selectedBar = 5, lastPressedBar = 5, wasPressed = True\<rparr>"
    by code_simp
  have w: "DISPLAY_WIDTH \<le> 400" by (simp add: DISPLAY_WIDTH_def)
  have p: "Touch_points ?o1 > 0" "ispressed ?o2" by simp_all
  have run: "drawSingleBar 5 barColor =
      Some [Lcd (FillRect 90 20 17 182 TFT_WHITE), Lcd (SetTextColorBg TFT_BLACK TFT_WHITE),
            Lcd (SetTextSize 1), Lcd (SetCursor 93 142), Lcd (Print ''A3'')]"
    by code_simp
  from guarded_indices [OF n, of "[?i1]" 400 23 ?o1 "[?i2]" ?o2] st1 st2 w p n run
  show ?thesis
    by (auto simp: semitone_offset_def drawModeIndicator_def barWidth_val barY_def barColor_def
        getBarHeight_def centerIndex_val maxHeight_def stepHeight_def noteNames_def Let_def)
qed

end
